theory Spec2Isabelle
  imports Main "HOL-Library.AList"
begin

section \<open>The syntax tree\<close>

text \<open>
  The tree comes from the parser module (\<^verbatim>\<open>import { AST, TYPE } from './parser'\<close>).
  The compiler reads the fields below, in this order:
  \<^item> \<open>Program body\<close>;
  \<^item> \<open>ConditionalExpression test consequent alternate\<close>;
  \<^item> \<open>LogicalExpression operator left right\<close>, \<open>BinaryExpression operator left right\<close>,
    \<open>UnaryExpression operator argument\<close>;
  \<^item> \<open>CallExpression callee arguments\<close>;
  \<^item> \<open>MemberExpression object property computed\<close>;
  \<^item> \<open>ArrayExpression elements\<close>, where \<open>None\<close> is a hole (a falsy entry of
    \<^verbatim>\<open>ast.elements\<close>);
  \<^item> \<open>ObjectExpression properties\<close>, each a pair \<open>(key, value)\<close>;
  \<^item> \<open>Identifier name\<close>, \<open>Literal value\<close>.

  \<open>Unknown\<close> stands for a node whose \<^verbatim>\<open>type\<close> is none of the eleven cases of the
  \<^verbatim>\<open>switch\<close> in \<^verbatim>\<open>recurse\<close>. Numbers are integers here (their decimal text is what
  \<^verbatim>\<open>'' + ast.value\<close> yields below \<open>10^21\<close>); fractions and exponents are outside the model.
\<close>

datatype literal = LStr string | LNum int | LBool bool | LNull

datatype AST =
    Program "AST list"
  | ConditionalExpression AST AST AST
  | LogicalExpression string AST AST
  | BinaryExpression string AST AST
  | UnaryExpression string AST
  | CallExpression AST "AST list"
  | MemberExpression AST AST bool
  | ArrayExpression "AST option list"
  | ObjectExpression "(AST \<times> AST) list"
  | Identifier string
  | Literal literal
  | Unknown

section \<open>Generated code\<close>

text \<open>
  \<^verbatim>\<open>recurse\<close> builds its output by string concatenation. Each constructor below stands
  for one of the concatenations of the source; \<open>render\<close> and \<open>render_stmt\<close> further down give the
  string. \<open>JNone\<close> is the value \<^verbatim>\<open>undefined\<close> that \<^verbatim>\<open>recurse\<close> returns where it
  returns no string (a \<open>Program\<close>, whose case ends in \<^verbatim>\<open>break\<close>, and a node kind without a
  case). A temp slot \<^verbatim>\<open>'v' + id\<close> is kept as its number.
\<close>

datatype jexpr =
    JNone
  | JSlot nat
  | JCtx
  | JName string
  | JText string
  | JNot jexpr
  | JBinary string jexpr jexpr
  | JUnary string jexpr
  | JCall jexpr jexpr "jexpr list"
  | JMember jexpr jexpr bool
  | JArray "jexpr option list"
  | JObject "(jexpr \<times> jexpr) list"

datatype jstmt =
    JIf jexpr jstmt
  | JAssign nat jexpr
  | JEnsureSafeFn jexpr
  | JExpr jexpr
  | JReturn jexpr

subsection \<open>The text of the generated code\<close>

definition quote :: char where
  "quote = CHR 0x27"

definition decimal_digit :: "nat \<Rightarrow> char" where
  "decimal_digit d = ''0123456789'' ! d"

fun show_nat :: "nat \<Rightarrow> string" where
  "show_nat n =
     (if n < 10 then [decimal_digit n]
      else show_nat (n div 10) @ [decimal_digit (n mod 10)])"

declare show_nat.simps [simp del]

definition show_int :: "int \<Rightarrow> string" where
  "show_int i = (if i < 0 then CHR ''-'' # show_nat (nat (- i)) else show_nat (nat i))"

fun join :: "string \<Rightarrow> string list \<Rightarrow> string" where
  "join sep [] = []"
| "join sep [x] = x"
| "join sep (x # y # ys) = x @ sep @ join sep (y # ys)"

text \<open>
  \<open>render\<close> is the string a \<open>jexpr\<close> stands for where the source concatenates it with
  \<^verbatim>\<open>+\<close> (\<^verbatim>\<open>undefined\<close> becomes the text \<^verbatim>\<open>undefined\<close>); \<open>render_joined\<close> is what
  \<^verbatim>\<open>Array.prototype.join\<close> makes of it (\<^verbatim>\<open>undefined\<close> and a hole become the empty
  string).
\<close>

fun render :: "jexpr \<Rightarrow> string" where
  "render JNone = ''undefined''"
| "render (JSlot n) = CHR ''v'' # show_nat n"
| "render JCtx = ''ctx''"
| "render (JName x) = x"
| "render (JText t) = t"
| "render (JNot e) = ''!('' @ render e @ '')''"
| "render (JBinary operator l r) = ''('' @ render l @ '')'' @ operator @ ''('' @ render r @ '')''"
| "render (JUnary operator e) = operator @ ''('' @ render e @ '')''"
| "render (JCall callee callContext args) =
     render callee @ ''&&'' @ render callee @ ''.call('' @ render callContext @
     (if length args > 0
      then '','' @ join '','' (map (\<lambda>a. if a = JNone then [] else render a) args)
      else []) @ '')''"
| "render (JMember l r computed) =
     (if computed then ''('' @ render l @ '')['' @ render r @ '']''
      else ''('' @ render l @ '').'' @ render r)"
| "render (JArray es) =
     ''['' @ join '',''
        (map (\<lambda>e. case e of None \<Rightarrow> [] | Some a \<Rightarrow> if a = JNone then [] else render a) es) @ '']''"
| "render (JObject ps) =
     ''{'' @ join '','' (map (\<lambda>(k, v). render k @ '':'' @ render v) ps) @ ''}''"

definition render_joined :: "jexpr \<Rightarrow> string" where
  "render_joined e = (if e = JNone then [] else render e)"

fun render_stmt :: "jstmt \<Rightarrow> string" where
  "render_stmt (JIf test consequent) = ''if('' @ render test @ ''){'' @ render_stmt consequent @ ''}''"
| "render_stmt (JAssign left right) = render (JSlot left) @ ''='' @ render right @ '';''"
| "render_stmt (JEnsureSafeFn callee) = ''ensureSafeFn('' @ render callee @ '');''"
| "render_stmt (JExpr e) = render_joined e @ '';''"
| "render_stmt (JReturn e) = ''return '' @ render_joined e @ '';''"

section \<open>The compiler\<close>

text \<open>
  \<^verbatim>\<open>this.state\<close>: the counter \<^verbatim>\<open>id\<close> (written \<open>id'\<close>), the declared slots \<^verbatim>\<open>vars\<close> (by
  number) and the fragments of \<^verbatim>\<open>body\<close>, one statement each.
\<close>

record state =
  id' :: nat
  vars :: "nat list"
  body :: "jstmt list"

datatype compile_error = TypeError_undefined_node | SyntaxError | Unsupported_text

definition variableDeclaration :: "state \<Rightarrow> nat \<times> state" where
  "variableDeclaration st = (id' st, st\<lparr>id' := id' st + 1, vars := vars st @ [id' st]\<rparr>)"

definition push :: "jstmt \<Rightarrow> state \<Rightarrow> state" where
  "push s st = st\<lparr>body := body st @ [s]\<rparr>"

abbreviation if_stmt :: "jexpr \<Rightarrow> jstmt \<Rightarrow> jstmt" where
  "if_stmt test consequent \<equiv> JIf test consequent"

abbreviation not :: "jexpr \<Rightarrow> jexpr" where
  "not e \<equiv> JNot e"

abbreviation assign :: "nat \<Rightarrow> jexpr \<Rightarrow> jstmt" where
  "assign left right \<equiv> JAssign left right"

abbreviation member_expr :: "jexpr \<Rightarrow> jexpr \<Rightarrow> bool \<Rightarrow> jexpr" where
  "member_expr left right computed \<equiv> JMember left right computed"

fun drop_trailing_holes :: "'a option list \<Rightarrow> 'a option list" where
  "drop_trailing_holes [] = []"
| "drop_trailing_holes (x # xs) =
     (case drop_trailing_holes xs of
        [] \<Rightarrow> (case x of None \<Rightarrow> [] | Some a \<Rightarrow> [Some a])
      | y # ys \<Rightarrow> x # y # ys)"

text \<open>
  A lowering threads the compiler state and returns a result, or the \<^verbatim>\<open>TypeError\<close> of
  reading \<^verbatim>\<open>ast.type\<close> of \<^verbatim>\<open>undefined\<close> (an empty \<open>Program\<close>: \<^verbatim>\<open>ast.body[len - 1]\<close>).
  The four loops of \<^verbatim>\<open>recurse\<close> run the lowerings of the children in order:
  \<^verbatim>\<open>ast.arguments.map\<close>, the \<^verbatim>\<open>for\<close> loop over \<^verbatim>\<open>ast.elements\<close> (a hole is skipped),
  \<^verbatim>\<open>ast.properties.map\<close> (a key that is an \<open>Identifier\<close> is its name, and is not lowered)
  and the loop over \<^verbatim>\<open>ast.body\<close>, which pushes every statement but the last as
  \<^verbatim>\<open>text;\<close> and the last as \<^verbatim>\<open>return text;\<close>.
\<close>

type_synonym 'a lowering = "state \<Rightarrow> compile_error + ('a \<times> state)"

fun recurse_arguments :: "(jexpr \<times> jexpr) lowering list \<Rightarrow> (jexpr list) lowering" where
  "recurse_arguments [] st = Inr ([], st)"
| "recurse_arguments (arg # rest) st =
     (case arg st of
        Inl err \<Rightarrow> Inl err
      | Inr ((a, _), st1) \<Rightarrow>
          (case recurse_arguments rest st1 of
             Inl err \<Rightarrow> Inl err
           | Inr (as, st2) \<Rightarrow> Inr (a # as, st2)))"

fun recurse_elements ::
  "(jexpr \<times> jexpr) lowering option list \<Rightarrow> (jexpr option list) lowering" where
  "recurse_elements [] st = Inr ([], st)"
| "recurse_elements (None # rest) st =
     (case recurse_elements rest st of
        Inl err \<Rightarrow> Inl err
      | Inr (es, st1) \<Rightarrow> Inr (None # es, st1))"
| "recurse_elements (Some element # rest) st =
     (case element st of
        Inl err \<Rightarrow> Inl err
      | Inr ((e, _), st1) \<Rightarrow>
          (case recurse_elements rest st1 of
             Inl err \<Rightarrow> Inl err
           | Inr (es, st2) \<Rightarrow> Inr (Some e # es, st2)))"

fun recurse_properties ::
  "((AST \<times> AST) \<times> (jexpr \<times> jexpr) lowering \<times> (jexpr \<times> jexpr) lowering) list \<Rightarrow>
   ((jexpr \<times> jexpr) list) lowering" where
  "recurse_properties [] st = Inr ([], st)"
| "recurse_properties (((key, _), lower_key, lower_value) # rest) st =
     (case (case key of
              Identifier name \<Rightarrow> Inr ((JName name, JCtx), st)
            | _ \<Rightarrow> lower_key st) of
        Inl err \<Rightarrow> Inl err
      | Inr ((k, _), st1) \<Rightarrow>
          (case lower_value st1 of
             Inl err \<Rightarrow> Inl err
           | Inr ((v, _), st2) \<Rightarrow>
               (case recurse_properties rest st2 of
                  Inl err \<Rightarrow> Inl err
                | Inr (ps, st3) \<Rightarrow> Inr ((k, v) # ps, st3))))"

fun recurse_body :: "(jexpr \<times> jexpr) lowering list \<Rightarrow> state \<Rightarrow> compile_error + state" where
  "recurse_body [] st = Inl TypeError_undefined_node"
| "recurse_body [last_stmt] st =
     (case last_stmt st of
        Inl err \<Rightarrow> Inl err
      | Inr ((e, _), st1) \<Rightarrow> Inr (push (JReturn e) st1))"
| "recurse_body (stmt # next_stmt # rest) st =
     (case stmt st of
        Inl err \<Rightarrow> Inl err
      | Inr ((e, _), st1) \<Rightarrow> recurse_body (next_stmt # rest) (push (JExpr e) st1))"

text \<open>
  \<open>recurse ast st\<close> returns the pair of the string that \<^verbatim>\<open>recurse(ast, setCallContext)\<close>
  returns and the string it hands to \<^verbatim>\<open>setCallContext\<close>. Only the \<open>MemberExpression\<close> case
  calls \<^verbatim>\<open>setCallContext\<close> (with \<open>left\<close>); in every other case the pair carries
  \<^verbatim>\<open>'ctx'\<close>, the initial value of \<^verbatim>\<open>callContext\<close>. Only the \<open>CallExpression\<close> case passes a
  \<^verbatim>\<open>setCallContext\<close>, for its callee; every other caller drops the second component.

  The arguments of a \<^verbatim>\<open>push\<close> are evaluated before the push, so the statements of a nested
  \<^verbatim>\<open>recurse\<close> are in \<open>body\<close> before the statement that holds its result.
\<close>

primrec recurse :: "AST \<Rightarrow> (jexpr \<times> jexpr) lowering" where
  "recurse (Program stmts) st =
     (case recurse_body (map recurse stmts) st of
        Inl err \<Rightarrow> Inl err
      | Inr st1 \<Rightarrow> Inr ((JNone, JCtx), st1))"
| "recurse (ConditionalExpression test consequent alternate) st =
     (let (variable, st1) = variableDeclaration st;
          (testVariable, st2) = variableDeclaration st1
      in case recurse test st2 of
           Inl err \<Rightarrow> Inl err
         | Inr ((t, _), st3) \<Rightarrow>
             (case recurse consequent (push (assign testVariable t) st3) of
                Inl err \<Rightarrow> Inl err
              | Inr ((c, _), st4) \<Rightarrow>
                  (case recurse alternate
                          (push (if_stmt (JSlot testVariable) (assign variable c)) st4) of
                     Inl err \<Rightarrow> Inl err
                   | Inr ((a, _), st5) \<Rightarrow>
                       Inr ((JSlot variable, JCtx),
                            push (if_stmt (not (JSlot testVariable)) (assign variable a)) st5))))"
| "recurse (LogicalExpression operator left right) st =
     (let (variable, st1) = variableDeclaration st
      in case recurse left st1 of
           Inl err \<Rightarrow> Inl err
         | Inr ((l, _), st2) \<Rightarrow>
             (case recurse right (push (assign variable l) st2) of
                Inl err \<Rightarrow> Inl err
              | Inr ((r, _), st3) \<Rightarrow>
                  Inr ((JSlot variable, JCtx),
                       push (if_stmt (if operator = ''&&'' then JSlot variable
                                      else not (JSlot variable))
                                     (assign variable r)) st3)))"
| "recurse (BinaryExpression operator left right) st =
     (case recurse left st of
        Inl err \<Rightarrow> Inl err
      | Inr ((l, _), st1) \<Rightarrow>
          (case recurse right st1 of
             Inl err \<Rightarrow> Inl err
           | Inr ((r, _), st2) \<Rightarrow> Inr ((JBinary operator l r, JCtx), st2)))"
| "recurse (UnaryExpression operator argument) st =
     (case recurse argument st of
        Inl err \<Rightarrow> Inl err
      | Inr ((a, _), st1) \<Rightarrow> Inr ((JUnary operator a, JCtx), st1))"
| "recurse (CallExpression callee arguments) st =
     (case recurse callee st of
        Inl err \<Rightarrow> Inl err
      | Inr ((c, callContext), st1) \<Rightarrow>
          (case recurse_arguments (map recurse arguments) st1 of
             Inl err \<Rightarrow> Inl err
           | Inr (args, st2) \<Rightarrow>
               Inr ((JCall c callContext args, JCtx), push (JEnsureSafeFn c) st2)))"
| "recurse (MemberExpression object property computed) st =
     (let (variable, st1) = variableDeclaration st
      in case recurse object st1 of
           Inl err \<Rightarrow> Inl err
         | Inr ((left, _), st2) \<Rightarrow>
             (case (if computed then recurse property st2
                    else Inr ((case property of Identifier name \<Rightarrow> JName name | _ \<Rightarrow> JNone,
                               JCtx), st2)) of
                Inl err \<Rightarrow> Inl err
              | Inr ((right, _), st3) \<Rightarrow>
                  Inr ((JSlot variable, left),
                       push (if_stmt left (assign variable (member_expr left right computed)))
                            st3)))"
| "recurse (ArrayExpression elements) st =
     (case recurse_elements (map (map_option recurse) elements) st of
        Inl err \<Rightarrow> Inl err
      | Inr (es, st1) \<Rightarrow> Inr ((JArray (drop_trailing_holes es), JCtx), st1))"
| "recurse (ObjectExpression properties) st =
     (case recurse_properties (zip properties (map (map_prod recurse recurse) properties)) st of
        Inl err \<Rightarrow> Inl err
      | Inr (ps, st1) \<Rightarrow> Inr ((JObject ps, JCtx), st1))"
| "recurse (Identifier name) st =
     (let (variable, st1) = variableDeclaration st
      in Inr ((JSlot variable, JCtx),
              push (if_stmt JCtx (assign variable (member_expr JCtx (JName name) False))) st1))"
| "recurse (Literal v) st =
     Inr ((JText (case v of
                    LStr s \<Rightarrow> [quote] @ s @ [quote]
                  | LNum n \<Rightarrow> show_int n
                  | LBool b \<Rightarrow> (if b then ''true'' else ''false'')
                  | LNull \<Rightarrow> ''null''), JCtx), st)"
| "recurse Unknown st = Inr ((JNone, JCtx), st)"

definition fnBody :: "state \<Rightarrow> string" where
  "fnBody st =
     ''return function(ctx){'' @
     (if length (vars st) > 0
      then ''var '' @ join '','' (map (\<lambda>v. render (JSlot v)) (vars st)) @ '';''
      else []) @
     concat (map render_stmt (body st)) @
     ''}''"

section \<open>The host: values\<close>

text \<open>
  \<^verbatim>\<open>compile\<close> hands \<open>fnBody\<close> to \<^verbatim>\<open>new Function\<close>, so what the compiled unit does is
  what the host makes of that text. The host is modelled as far as the emitted text needs.

  Values are the primitives, plain objects (own properties, in insertion order), arrays
  (\<open>None\<close> is a hole) and functions. A function is the runtime's \<^verbatim>\<open>Function\<close> constructor
  or a function the caller put into the context, known by a number. Numbers are integers
  and \<open>VNaN\<close>.
\<close>

datatype fn = FunctionConstructor | HostFunction nat

datatype val =
    VUndefined
  | VNull
  | VBool bool
  | VNum int
  | VNaN
  | VStr string
  | VObj "(string \<times> val) list"
  | VArr "val option list"
  | VFun fn

datatype call = Call fn val "val list"

datatype fault = ForbiddenCallTarget | TypeError | Thrown val

text \<open>
  What the model takes from the caller's environment:
  \<^item> \<open>inherited v k\<close>: the property \<open>k\<close> of \<open>v\<close> where it is not an own property of a plain
    object (the prototype chain, and every property of a string, number, array or
    function); \<open>VUndefined\<close> if there is none;
  \<^item> \<open>apply_fn f calls this args\<close>: what the function \<open>f\<close> returns or throws when called with
    \<open>this\<close> and \<open>args\<close> after the earlier \<open>calls\<close>;
  \<^item> \<open>unary\<close> and \<open>binary\<close>: the operators, whose strings the compiler copies from the tree;
  \<^item> \<open>property_key\<close>: the key an object, array or function is converted to in
    \<^verbatim>\<open>(left)[right]\<close>.
  The context and the values in it do not change during a call of the compiled unit, and
  reading a property runs no code of the caller; calls are recorded in order.
\<close>

record host =
  inherited :: "val \<Rightarrow> string \<Rightarrow> val"
  apply_fn :: "fn \<Rightarrow> call list \<Rightarrow> val \<Rightarrow> val list \<Rightarrow> fault + val"
  unary :: "string \<Rightarrow> val \<Rightarrow> fault + val"
  binary :: "string \<Rightarrow> val \<Rightarrow> val \<Rightarrow> fault + val"
  property_key :: "val \<Rightarrow> string"

fun truthy :: "val \<Rightarrow> bool" where
  "truthy VUndefined = False"
| "truthy VNull = False"
| "truthy (VBool b) = b"
| "truthy (VNum n) = (n \<noteq> 0)"
| "truthy VNaN = False"
| "truthy (VStr s) = (s \<noteq> [])"
| "truthy (VObj ps) = True"
| "truthy (VArr xs) = True"
| "truthy (VFun f) = True"

fun typeof :: "val \<Rightarrow> string" where
  "typeof VUndefined = ''undefined''"
| "typeof VNull = ''object''"
| "typeof (VBool b) = ''boolean''"
| "typeof (VNum n) = ''number''"
| "typeof VNaN = ''number''"
| "typeof (VStr s) = ''string''"
| "typeof (VObj ps) = ''object''"
| "typeof (VArr xs) = ''object''"
| "typeof (VFun f) = ''function''"

text \<open>The guard of the source, \<^verbatim>\<open>Function\<close> being the runtime's constructor.\<close>

definition ensureSafeFn :: "val \<Rightarrow> fault + unit" where
  "ensureSafeFn callee =
     (if typeof callee = ''function'' \<and> callee = VFun FunctionConstructor
      then Inl ForbiddenCallTarget
      else Inr ())"

text \<open>
  \<open>property H v k\<close> is the property \<open>k\<close> of a value that has properties; reading one of
  \<^verbatim>\<open>null\<close> or \<^verbatim>\<open>undefined\<close> throws.
\<close>

definition property :: "host \<Rightarrow> val \<Rightarrow> string \<Rightarrow> val" where
  "property H v k =
     (case v of
        VObj ps \<Rightarrow> (case map_of ps k of Some x \<Rightarrow> x | None \<Rightarrow> inherited H v k)
      | _ \<Rightarrow> inherited H v k)"

definition get_property :: "host \<Rightarrow> val \<Rightarrow> string \<Rightarrow> fault + val" where
  "get_property H v k =
     (if v = VUndefined \<or> v = VNull then Inl TypeError else Inr (property H v k))"

definition to_property_key :: "host \<Rightarrow> val \<Rightarrow> string" where
  "to_property_key H v =
     (case v of
        VUndefined \<Rightarrow> ''undefined''
      | VNull \<Rightarrow> ''null''
      | VBool b \<Rightarrow> (if b then ''true'' else ''false'')
      | VNum n \<Rightarrow> show_int n
      | VNaN \<Rightarrow> ''NaN''
      | VStr s \<Rightarrow> s
      | _ \<Rightarrow> property_key H v)"

section \<open>The host: reading the generated text\<close>

text \<open>
  \<open>pexpr\<close> and \<open>pstmt\<close> are the expressions and statements the host's parser finds in the
  text. Reading fails with \<open>SyntaxError\<close> where the host's parser rejects the text, and
  with \<open>Unsupported_text\<close> where this model does not say how the host reads it.
\<close>

datatype pexpr =
    PUndefined
  | PSlot nat
  | PCtx
  | PLiteral val
  | PNot pexpr
  | PBinary string pexpr pexpr
  | PUnary string pexpr
  | PAnd pexpr pexpr
  | PDotCall pexpr pexpr "pexpr list"
  | PDot pexpr string
  | PIndex pexpr pexpr
  | PArray "pexpr option list"
  | PObject "(string \<times> pexpr) list"

datatype pstmt =
    PIf pexpr pstmt
  | PAssign nat pexpr
  | PEnsureSafeFn pexpr
  | PExpr pexpr
  | PReturn pexpr
  | PEmpty

subsection \<open>Names and operators\<close>

text \<open>
  The compiler copies the names of identifiers and properties and the operators from the
  tree into the text as they are. The model reads a name made of letters, digits,
  \<^verbatim>\<open>_\<close> and \<^verbatim>\<open>$\<close> that does not start with a digit, and the operators below, all of
  which bind tighter than \<^verbatim>\<open>&&\<close>; what the host makes of any other name or operator is
  not modelled.
\<close>

definition name_start :: "char \<Rightarrow> bool" where
  "name_start c = (c \<in> set ''abcdefghijklmnopqrstuvwxyzABCDEFGHIJKLMNOPQRSTUVWXYZ_$'')"

definition name_part :: "char \<Rightarrow> bool" where
  "name_part c = (name_start c \<or> c \<in> set ''0123456789'')"

definition name_token :: "string \<Rightarrow> bool" where
  "name_token x = (case x of [] \<Rightarrow> False | c # cs \<Rightarrow> name_start c \<and> list_all name_part cs)"

definition unary_operators :: "string list" where
  "unary_operators = [''-'', ''+'', ''!'', ''~'', ''typeof'', ''void'']"

definition binary_operators :: "string list" where
  "binary_operators =
     [''=='', ''!='', ''==='', ''!=='', ''<'', ''<='', ''>'', ''>='', ''<<'', ''>>'', ''>>>'',
      ''+'', ''-'', ''*'', ''/'', ''%'', ''|'', ''^'', ''&'', ''in'', ''instanceof'']"

subsection \<open>Literal tokens\<close>

definition digit_of :: "char \<Rightarrow> nat option" where
  "digit_of =
     map_of [(CHR ''0'', 0), (CHR ''1'', 1), (CHR ''2'', 2), (CHR ''3'', 3), (CHR ''4'', 4),
             (CHR ''5'', 5), (CHR ''6'', 6), (CHR ''7'', 7), (CHR ''8'', 8), (CHR ''9'', 9)]"

fun read_digits :: "nat \<Rightarrow> string \<Rightarrow> nat option" where
  "read_digits acc [] = Some acc"
| "read_digits acc (c # cs) =
     (case digit_of c of None \<Rightarrow> None | Some d \<Rightarrow> read_digits (10 * acc + d) cs)"

text \<open>A decimal integer literal: digits, with no leading zero (that would be octal).\<close>

definition read_decimal :: "string \<Rightarrow> nat option" where
  "read_decimal s =
     (case s of
        [] \<Rightarrow> None
      | c # cs \<Rightarrow> if c = CHR ''0'' \<and> cs \<noteq> [] then None else read_digits 0 s)"

definition backslash :: char where
  "backslash = CHR 0x5C"

text \<open>
  The character after a backslash in a string literal: the single-character escapes and
  the characters that stand for themselves. Hexadecimal, Unicode and octal escapes and
  line continuations are not modelled (\<open>None\<close>).
\<close>

definition unescape :: "char \<Rightarrow> char option" where
  "unescape c =
     (if c = CHR ''n'' then Some (CHR 0x0A) else if c = CHR ''t'' then Some (CHR 0x09)
      else if c = CHR ''r'' then Some (CHR 0x0D) else if c = CHR ''b'' then Some (CHR 0x08)
      else if c = CHR ''f'' then Some (CHR 0x0C) else if c = CHR ''v'' then Some (CHR 0x0B)
      else if c = CHR ''x'' \<or> c = CHR ''u'' \<or> c = CHR 0x0A \<or> c = CHR 0x0D then None
      else case digit_of c of Some d \<Rightarrow> None | None \<Rightarrow> Some c)"

text \<open>
  \<open>string_token s\<close> scans a single-quoted string literal whose opening quote has been
  consumed: it returns the string's value and the text after the closing quote, or \<open>None\<close>
  where no token is found (the text ends, or a line ends, before a closing quote) or an
  escape is not modelled.
\<close>

fun string_token :: "string \<Rightarrow> (string \<times> string) option" where
  "string_token [] = None"
| "string_token [c] = (if c = quote then Some ([], []) else None)"
| "string_token (c # d # cs) =
     (if c = quote then Some ([], d # cs)
      else if c = CHR 0x0A \<or> c = CHR 0x0D then None
      else if c = backslash then
        (case unescape d of
           None \<Rightarrow> None
         | Some e \<Rightarrow> (case string_token cs of None \<Rightarrow> None | Some (v, rest) \<Rightarrow> Some (e # v, rest)))
      else (case string_token (d # cs) of None \<Rightarrow> None | Some (v, rest) \<Rightarrow> Some (c # v, rest)))"

text \<open>
  Text that certainly holds a string literal without an end: up to its first quote it is
  made of letters, digits, \<^verbatim>\<open>_\<close>, \<^verbatim>\<open>$\<close> and spaces only (so the quote opens a
  string), and after that quote there is no further quote. The host's parser rejects any
  text that contains it.
\<close>

definition unterminated_string :: "string \<Rightarrow> bool" where
  "unterminated_string s =
     (let pre = takeWhile (\<lambda>c. c \<noteq> quote) s; post = dropWhile (\<lambda>c. c \<noteq> quote) s
      in post \<noteq> [] \<and> quote \<notin> set (tl post) \<and>
         list_all (\<lambda>c. name_part c \<or> c = CHR '' '') pre)"

text \<open>
  The value of the text of a \<open>Literal\<close>, read as one literal token (a negative number is
  the negation of a literal; \<^verbatim>\<open>-0\<close> is no integer). A string whose closing quote is not the last character is a
  \<open>SyntaxError\<close> where the rest holds an unterminated string, and is not modelled otherwise
  (the rest may make another expression of it).
\<close>

definition read_literal :: "string \<Rightarrow> compile_error + val" where
  "read_literal t =
     (if t = ''true'' then Inr (VBool True)
      else if t = ''false'' then Inr (VBool False)
      else if t = ''null'' then Inr VNull
      else case t of
        [] \<Rightarrow> Inl Unsupported_text
      | c # cs \<Rightarrow>
          if c = quote then
            (case string_token cs of
               None \<Rightarrow> if quote \<in> set cs then Inl Unsupported_text else Inl SyntaxError
             | Some (v, rest) \<Rightarrow>
                 if rest = [] then Inr (VStr v)
                 else if unterminated_string rest then Inl SyntaxError
                 else Inl Unsupported_text)
          else if c = CHR ''-'' then
            (case read_decimal cs of
               None \<Rightarrow> Inl Unsupported_text
             | Some n \<Rightarrow> if n = 0 then Inl Unsupported_text else Inr (VNum (- int n)))
          else
            (case read_decimal t of None \<Rightarrow> Inl Unsupported_text | Some n \<Rightarrow> Inr (VNum (int n))))"

subsection \<open>Expressions and statements\<close>

text \<open>
  \<open>attach p k\<close> is how the host reads the text of \<open>p\<close> followed by \<^verbatim>\<open>.call(...)\<close>, where
  \<open>k\<close> builds that call on its receiver. The call binds tighter than every operator, so it
  lands on the last operand: on the right of \<^verbatim>\<open>a&&b\<close>, on the parenthesised right
  operand of \<^verbatim>\<open>(l)op(r)\<close> and on the parenthesised operand of \<^verbatim>\<open>op(e)\<close>. Directly
  after a number it is a \<open>SyntaxError\<close>.
\<close>

fun attach :: "pexpr \<Rightarrow> (pexpr \<Rightarrow> pexpr) \<Rightarrow> compile_error + pexpr" where
  "attach (PAnd a b) k = (case attach b k of Inl err \<Rightarrow> Inl err | Inr b' \<Rightarrow> Inr (PAnd a b'))"
| "attach (PBinary operator l r) k = Inr (PBinary operator l (k r))"
| "attach (PUnary operator e) k = Inr (PUnary operator (k e))"
| "attach (PNot e) k = Inr (PNot (k e))"
| "attach (PLiteral v) k =
     (case v of VNum n \<Rightarrow> Inl SyntaxError | _ \<Rightarrow> Inr (k (PLiteral v)))"
| "attach e k = Inr (k e)"

text \<open>
  The arguments after \<^verbatim>\<open>callContext\<close>, joined with commas: an empty text (\<open>JNone\<close>) in
  last place leaves a trailing comma, anywhere else two commas in a row.
\<close>

fun read_arguments :: "(jexpr \<times> (compile_error + pexpr)) list \<Rightarrow> compile_error + pexpr list" where
  "read_arguments [] = Inr []"
| "read_arguments [(a, r)] =
     (if a = JNone then Inr []
      else case r of Inl err \<Rightarrow> Inl err | Inr p \<Rightarrow> Inr [p])"
| "read_arguments ((a, r) # x # xs) =
     (if a = JNone then Inl SyntaxError
      else case r of
             Inl err \<Rightarrow> Inl err
           | Inr p \<Rightarrow> (case read_arguments (x # xs) of
                         Inl err \<Rightarrow> Inl err
                       | Inr ps \<Rightarrow> Inr (p # ps)))"

text \<open>
  The elements of an array literal: an empty text is a hole, except in last place, where
  it only leaves a trailing comma.
\<close>

fun read_elements ::
  "(jexpr option \<times> (compile_error + pexpr) option) list \<Rightarrow> compile_error + pexpr option list" where
  "read_elements [] = Inr []"
| "read_elements [(e, r)] =
     (case r of
        Some (Inr p) \<Rightarrow> if e = Some JNone then Inr [] else Inr [Some p]
      | Some (Inl err) \<Rightarrow> Inl err
      | None \<Rightarrow> Inr [])"
| "read_elements ((e, r) # x # xs) =
     (case r of
        Some (Inl err) \<Rightarrow> Inl err
      | _ \<Rightarrow>
          (case read_elements (x # xs) of
             Inl err \<Rightarrow> Inl err
           | Inr ps \<Rightarrow>
               (case r of
                  Some (Inr p) \<Rightarrow> if e = Some JNone then Inr (None # ps) else Inr (Some p # ps)
                | _ \<Rightarrow> Inr (None # ps))))"

text \<open>
  The key of a property \<^verbatim>\<open>key:value\<close> of an object literal. A name is the key itself,
  also where it is the text of a temp slot; a string or a number is its value's key. No
  other expression may stand there. \<^verbatim>\<open>__proto__\<close> and a bracketed key are not modelled.
\<close>

definition read_key :: "jexpr \<Rightarrow> compile_error + string" where
  "read_key k =
     (case k of
        JName x \<Rightarrow>
          if x = ''__proto__'' then Inl Unsupported_text
          else if name_token x then Inr x
          else Inl Unsupported_text
      | JSlot n \<Rightarrow> Inr (render (JSlot n))
      | JCtx \<Rightarrow> Inr ''ctx''
      | JNone \<Rightarrow> Inr ''undefined''
      | JText t \<Rightarrow>
          (case read_literal t of
             Inl err \<Rightarrow> Inl err
           | Inr (VStr s) \<Rightarrow> if s = ''__proto__'' then Inl Unsupported_text else Inr s
           | Inr (VNum n) \<Rightarrow> if n < 0 then Inl SyntaxError else Inr t
           | Inr _ \<Rightarrow> Inr t)
      | JArray es \<Rightarrow> Inl Unsupported_text
      | _ \<Rightarrow> Inl SyntaxError)"

fun read_properties ::
  "((jexpr \<times> jexpr) \<times> (compile_error + pexpr) \<times> (compile_error + pexpr)) list \<Rightarrow>
   compile_error + (string \<times> pexpr) list" where
  "read_properties [] = Inr []"
| "read_properties (((k, _), _, rv) # rest) =
     (case read_key k of
        Inl err \<Rightarrow> Inl err
      | Inr key \<Rightarrow>
          (case rv of
             Inl err \<Rightarrow> Inl err
           | Inr v \<Rightarrow> (case read_properties rest of
                         Inl err \<Rightarrow> Inl err
                       | Inr ps \<Rightarrow> Inr ((key, v) # ps))))"

text \<open>
  \<open>read e\<close> is the expression the host finds in \<open>render e\<close>. A bare name is read only
  as the property of \<^verbatim>\<open>(left).name\<close>, where the text \<^verbatim>\<open>undefined\<close> is a name too.
\<close>

primrec read :: "jexpr \<Rightarrow> compile_error + pexpr" where
  "read JNone = Inr PUndefined"
| "read (JSlot n) = Inr (PSlot n)"
| "read JCtx = Inr PCtx"
| "read (JName x) = Inl Unsupported_text"
| "read (JText t) = (case read_literal t of Inl err \<Rightarrow> Inl err | Inr v \<Rightarrow> Inr (PLiteral v))"
| "read (JNot e) = (case read e of Inl err \<Rightarrow> Inl err | Inr p \<Rightarrow> Inr (PNot p))"
| "read (JBinary operator l r) =
     (case read l of
        Inl err \<Rightarrow> Inl err
      | Inr pl \<Rightarrow>
          (case read r of
             Inl err \<Rightarrow> Inl err
           | Inr pr \<Rightarrow>
               if operator \<in> set binary_operators then Inr (PBinary operator pl pr)
               else Inl Unsupported_text))"
| "read (JUnary operator e) =
     (case read e of
        Inl err \<Rightarrow> Inl err
      | Inr p \<Rightarrow>
          if operator \<in> set unary_operators then Inr (PUnary operator p)
          else Inl Unsupported_text)"
| "read (JCall callee callContext args) =
     (case read callee of
        Inl err \<Rightarrow> Inl err
      | Inr pc \<Rightarrow>
          (case read callContext of
             Inl err \<Rightarrow> Inl err
           | Inr pr \<Rightarrow>
               (case read_arguments (zip args (map read args)) of
                  Inl err \<Rightarrow> Inl err
                | Inr pas \<Rightarrow>
                    (case attach pc (\<lambda>e. PDotCall e pr pas) of
                       Inl err \<Rightarrow> Inl err
                     | Inr call \<Rightarrow> Inr (PAnd pc call)))))"
| "read (JMember l r computed) =
     (case read l of
        Inl err \<Rightarrow> Inl err
      | Inr pl \<Rightarrow>
          if computed
          then (case read r of Inl err \<Rightarrow> Inl err | Inr pr \<Rightarrow> Inr (PIndex pl pr))
          else (case r of
                  JName x \<Rightarrow> if name_token x then Inr (PDot pl x) else Inl Unsupported_text
                | JNone \<Rightarrow> Inr (PDot pl ''undefined'')
                | _ \<Rightarrow> Inl Unsupported_text))"
| "read (JArray es) =
     (case read_elements (zip es (map (map_option read) es)) of
        Inl err \<Rightarrow> Inl err
      | Inr ps \<Rightarrow> Inr (PArray ps))"
| "read (JObject ps) =
     (case read_properties (zip ps (map (map_prod read read) ps)) of
        Inl err \<Rightarrow> Inl err
      | Inr qs \<Rightarrow> Inr (PObject qs))"

text \<open>
  A statement \<^verbatim>\<open>text;\<close> whose text opens with a brace is read by the host as a block, not
  as an object literal; that reading is not modelled.
\<close>

primrec opens_block :: "jexpr \<Rightarrow> bool" where
  "opens_block JNone = False"
| "opens_block (JSlot n) = False"
| "opens_block JCtx = False"
| "opens_block (JName x) = False"
| "opens_block (JText t) = False"
| "opens_block (JNot e) = False"
| "opens_block (JBinary operator l r) = False"
| "opens_block (JUnary operator e) = False"
| "opens_block (JCall callee callContext args) = opens_block callee"
| "opens_block (JMember l r computed) = False"
| "opens_block (JArray es) = False"
| "opens_block (JObject ps) = True"

primrec read_stmt :: "jstmt \<Rightarrow> compile_error + pstmt" where
  "read_stmt (JIf test consequent) =
     (case read test of
        Inl err \<Rightarrow> Inl err
      | Inr t \<Rightarrow> (case read_stmt consequent of Inl err \<Rightarrow> Inl err | Inr c \<Rightarrow> Inr (PIf t c)))"
| "read_stmt (JAssign left right) =
     (case read right of Inl err \<Rightarrow> Inl err | Inr r \<Rightarrow> Inr (PAssign left r))"
| "read_stmt (JEnsureSafeFn callee) =
     (case read callee of Inl err \<Rightarrow> Inl err | Inr c \<Rightarrow> Inr (PEnsureSafeFn c))"
| "read_stmt (JExpr e) =
     (if e = JNone then Inr PEmpty
      else if opens_block e then Inl Unsupported_text
      else case read e of Inl err \<Rightarrow> Inl err | Inr p \<Rightarrow> Inr (PExpr p))"
| "read_stmt (JReturn e) =
     (if e = JNone then Inr (PReturn PUndefined)
      else case read e of Inl err \<Rightarrow> Inl err | Inr p \<Rightarrow> Inr (PReturn p))"

fun read_body :: "jstmt list \<Rightarrow> compile_error + pstmt list" where
  "read_body [] = Inr []"
| "read_body (s # ss) =
     (case read_stmt s of
        Inl err \<Rightarrow> Inl err
      | Inr p \<Rightarrow> (case read_body ss of Inl err \<Rightarrow> Inl err | Inr ps \<Rightarrow> Inr (p # ps)))"

section \<open>\<^verbatim>\<open>compile\<close>\<close>

text \<open>
  \<^verbatim>\<open>new Function('ensureSafeFn', fnBody)(this.ensureSafeFn)\<close> parses the text, which
  throws where it does not parse, and returns the inner function: its statements, run with
  \<^verbatim>\<open>ctx\<close> the argument and \<^verbatim>\<open>ensureSafeFn\<close> the guard. The \<^verbatim>\<open>var\<close> line declares
  every slot that \<open>body\<close> names (\<open>variableDeclaration\<close> is the only source of a slot), so
  each slot is a local variable that is \<^verbatim>\<open>undefined\<close> when a call starts.
\<close>

type_synonym compiled_unit = "pstmt list"

definition new_Function :: "state \<Rightarrow> compile_error + compiled_unit" where
  "new_Function st = read_body (body st)"

definition compile :: "AST \<Rightarrow> compile_error + compiled_unit" where
  "compile ast =
     (case recurse ast \<lparr>id' = 0, vars = [], body = []\<rparr> of
        Inl err \<Rightarrow> Inl err
      | Inr (_, st) \<Rightarrow> new_Function st)"

section \<open>The host: running a compiled unit\<close>

text \<open>
  An evaluation carries the calls made so far, and ends in a value or in a fault; both
  come with the calls made until then. Slots are the local variables \<^verbatim>\<open>v0, v1, ...\<close>.
\<close>

type_synonym 'a result = "(fault \<times> call list) + ('a \<times> call list)"

type_synonym slots = "nat \<Rightarrow> val"

definition call_fn :: "host \<Rightarrow> fn \<Rightarrow> val \<Rightarrow> val list \<Rightarrow> call list \<Rightarrow> val result" where
  "call_fn H f this args calls =
     (case apply_fn H f calls this args of
        Inl e \<Rightarrow> Inl (e, calls @ [Call f this args])
      | Inr v \<Rightarrow> Inr (v, calls @ [Call f this args]))"

text \<open>
  \<^verbatim>\<open>callee.call(callContext, args)\<close> on a callee that is neither \<^verbatim>\<open>null\<close> nor
  \<^verbatim>\<open>undefined\<close>. The \<^verbatim>\<open>call\<close> of a function is the built-in one: the function runs with
  \<open>this = callContext\<close>. On any other value, \<^verbatim>\<open>call\<close> is a property like any other, run as
  a method of the callee if it is a function; calling anything else is a \<open>TypeError\<close>.
\<close>

definition invoke_call :: "host \<Rightarrow> val \<Rightarrow> val \<Rightarrow> val list \<Rightarrow> call list \<Rightarrow> val result" where
  "invoke_call H callee callContext args calls =
     (case callee of
        VFun f \<Rightarrow> call_fn H f callContext args calls
      | _ \<Rightarrow>
          (case get_property H callee ''call'' of
             Inr (VFun g) \<Rightarrow> call_fn H g callee (callContext # args) calls
           | _ \<Rightarrow> Inl (TypeError, calls)))"

fun eval_all :: "(call list \<Rightarrow> val result) list \<Rightarrow> call list \<Rightarrow> (val list) result" where
  "eval_all [] calls = Inr ([], calls)"
| "eval_all (e # es) calls =
     (case e calls of
        Inl f \<Rightarrow> Inl f
      | Inr (v, calls1) \<Rightarrow>
          (case eval_all es calls1 of
             Inl f \<Rightarrow> Inl f
           | Inr (vs, calls2) \<Rightarrow> Inr (v # vs, calls2)))"

fun eval_elements ::
  "(call list \<Rightarrow> val result) option list \<Rightarrow> call list \<Rightarrow> (val option list) result" where
  "eval_elements [] calls = Inr ([], calls)"
| "eval_elements (None # es) calls =
     (case eval_elements es calls of
        Inl f \<Rightarrow> Inl f
      | Inr (vs, calls1) \<Rightarrow> Inr (None # vs, calls1))"
| "eval_elements (Some e # es) calls =
     (case e calls of
        Inl f \<Rightarrow> Inl f
      | Inr (v, calls1) \<Rightarrow>
          (case eval_elements es calls1 of
             Inl f \<Rightarrow> Inl f
           | Inr (vs, calls2) \<Rightarrow> Inr (Some v # vs, calls2)))"

text \<open>A key written twice keeps its first place and takes the later value.\<close>

fun eval_properties ::
  "(string \<times> (call list \<Rightarrow> val result)) list \<Rightarrow> (string \<times> val) list \<Rightarrow> call list \<Rightarrow>
   ((string \<times> val) list) result" where
  "eval_properties [] acc calls = Inr (acc, calls)"
| "eval_properties ((k, e) # ps) acc calls =
     (case e calls of
        Inl f \<Rightarrow> Inl f
      | Inr (v, calls1) \<Rightarrow> eval_properties ps (AList.update k v acc) calls1)"

primrec eval :: "host \<Rightarrow> val \<Rightarrow> slots \<Rightarrow> pexpr \<Rightarrow> call list \<Rightarrow> val result" where
  "eval H ctx env PUndefined calls = Inr (VUndefined, calls)"
| "eval H ctx env (PSlot n) calls = Inr (env n, calls)"
| "eval H ctx env PCtx calls = Inr (ctx, calls)"
| "eval H ctx env (PLiteral v) calls = Inr (v, calls)"
| "eval H ctx env (PNot e) calls =
     (case eval H ctx env e calls of
        Inl f \<Rightarrow> Inl f
      | Inr (v, calls1) \<Rightarrow> Inr (VBool (\<not> truthy v), calls1))"
| "eval H ctx env (PBinary operator l r) calls =
     (case eval H ctx env l calls of
        Inl f \<Rightarrow> Inl f
      | Inr (a, calls1) \<Rightarrow>
          (case eval H ctx env r calls1 of
             Inl f \<Rightarrow> Inl f
           | Inr (b, calls2) \<Rightarrow>
               (case binary H operator a b of
                  Inl e \<Rightarrow> Inl (e, calls2)
                | Inr v \<Rightarrow> Inr (v, calls2))))"
| "eval H ctx env (PUnary operator e) calls =
     (case eval H ctx env e calls of
        Inl f \<Rightarrow> Inl f
      | Inr (a, calls1) \<Rightarrow>
          (case unary H operator a of
             Inl e \<Rightarrow> Inl (e, calls1)
           | Inr v \<Rightarrow> Inr (v, calls1)))"
| "eval H ctx env (PAnd l r) calls =
     (case eval H ctx env l calls of
        Inl f \<Rightarrow> Inl f
      | Inr (a, calls1) \<Rightarrow> if truthy a then eval H ctx env r calls1 else Inr (a, calls1))"
| "eval H ctx env (PDotCall callee callContext args) calls =
     (case eval H ctx env callee calls of
        Inl f \<Rightarrow> Inl f
      | Inr (c, calls1) \<Rightarrow>
          if c = VUndefined \<or> c = VNull then Inl (TypeError, calls1)
          else
            (case eval H ctx env callContext calls1 of
               Inl f \<Rightarrow> Inl f
             | Inr (this, calls2) \<Rightarrow>
                 (case eval_all (map (eval H ctx env) args) calls2 of
                    Inl f \<Rightarrow> Inl f
                  | Inr (vs, calls3) \<Rightarrow> invoke_call H c this vs calls3)))"
| "eval H ctx env (PDot e k) calls =
     (case eval H ctx env e calls of
        Inl f \<Rightarrow> Inl f
      | Inr (v, calls1) \<Rightarrow>
          (case get_property H v k of
             Inl e \<Rightarrow> Inl (e, calls1)
           | Inr x \<Rightarrow> Inr (x, calls1)))"
| "eval H ctx env (PIndex e i) calls =
     (case eval H ctx env e calls of
        Inl f \<Rightarrow> Inl f
      | Inr (v, calls1) \<Rightarrow>
          (case eval H ctx env i calls1 of
             Inl f \<Rightarrow> Inl f
           | Inr (k, calls2) \<Rightarrow>
               (case get_property H v (to_property_key H k) of
                  Inl e \<Rightarrow> Inl (e, calls2)
                | Inr x \<Rightarrow> Inr (x, calls2))))"
| "eval H ctx env (PArray es) calls =
     (case eval_elements (map (map_option (eval H ctx env)) es) calls of
        Inl f \<Rightarrow> Inl f
      | Inr (vs, calls1) \<Rightarrow> Inr (VArr vs, calls1))"
| "eval H ctx env (PObject ps) calls =
     (case eval_properties (map (map_prod id (eval H ctx env)) ps) [] calls of
        Inl f \<Rightarrow> Inl f
      | Inr (kvs, calls1) \<Rightarrow> Inr (VObj kvs, calls1))"

datatype completion = Normal | Returned val

primrec exec ::
  "host \<Rightarrow> val \<Rightarrow> pstmt \<Rightarrow> slots \<Rightarrow> call list \<Rightarrow> (completion \<times> slots) result" where
  "exec H ctx (PIf test consequent) env calls =
     (case eval H ctx env test calls of
        Inl f \<Rightarrow> Inl f
      | Inr (t, calls1) \<Rightarrow>
          if truthy t then exec H ctx consequent env calls1
          else Inr ((Normal, env), calls1))"
| "exec H ctx (PAssign left right) env calls =
     (case eval H ctx env right calls of
        Inl f \<Rightarrow> Inl f
      | Inr (v, calls1) \<Rightarrow> Inr ((Normal, env(left := v)), calls1))"
| "exec H ctx (PEnsureSafeFn callee) env calls =
     (case eval H ctx env callee calls of
        Inl f \<Rightarrow> Inl f
      | Inr (c, calls1) \<Rightarrow>
          (case ensureSafeFn c of
             Inl e \<Rightarrow> Inl (e, calls1)
           | Inr _ \<Rightarrow> Inr ((Normal, env), calls1)))"
| "exec H ctx (PExpr e) env calls =
     (case eval H ctx env e calls of
        Inl f \<Rightarrow> Inl f
      | Inr (v, calls1) \<Rightarrow> Inr ((Normal, env), calls1))"
| "exec H ctx (PReturn e) env calls =
     (case eval H ctx env e calls of
        Inl f \<Rightarrow> Inl f
      | Inr (v, calls1) \<Rightarrow> Inr ((Returned v, env), calls1))"
| "exec H ctx PEmpty env calls = Inr ((Normal, env), calls)"

fun exec_body ::
  "host \<Rightarrow> val \<Rightarrow> pstmt list \<Rightarrow> slots \<Rightarrow> call list \<Rightarrow> (completion \<times> slots) result" where
  "exec_body H ctx [] env calls = Inr ((Normal, env), calls)"
| "exec_body H ctx (s # ss) env calls =
     (case exec H ctx s env calls of
        Inl f \<Rightarrow> Inl f
      | Inr ((Returned v, env1), calls1) \<Rightarrow> Inr ((Returned v, env1), calls1)
      | Inr ((Normal, env1), calls1) \<Rightarrow> exec_body H ctx ss env1 calls1)"

text \<open>
  Calling the compiled unit with a context: the value it returns (\<^verbatim>\<open>undefined\<close> if it
  runs to its end without a \<^verbatim>\<open>return\<close>) or the fault it throws, with the calls it made.
\<close>

definition call_unit :: "host \<Rightarrow> compiled_unit \<Rightarrow> val \<Rightarrow> val result" where
  "call_unit H unit ctx =
     (case exec_body H ctx unit (\<lambda>_. VUndefined) [] of
        Inl f \<Rightarrow> Inl f
      | Inr ((Returned v, _), calls) \<Rightarrow> Inr (v, calls)
      | Inr ((Normal, _), calls) \<Rightarrow> Inr (VUndefined, calls))"

text \<open>\<open>evaluate H ast ctx\<close> is \<^verbatim>\<open>compile(ast)(ctx)\<close> on the host \<open>H\<close>.\<close>

definition evaluate :: "host \<Rightarrow> AST \<Rightarrow> val \<Rightarrow> compile_error + val result" where
  "evaluate H ast ctx =
     (case compile ast of
        Inl err \<Rightarrow> Inl err
      | Inr unit \<Rightarrow> Inr (call_unit H unit ctx))"

section \<open>Notions used in the statements\<close>

text \<open>
  A host with nothing in it: no inherited properties, functions that return
  \<^verbatim>\<open>undefined\<close>, operators that yield \<^verbatim>\<open>undefined\<close>. The string \<^verbatim>\<open>''\<close> has its
  \<^verbatim>\<open>length\<close>.
\<close>

definition plain_host :: host where
  "plain_host =
     \<lparr>inherited = (\<lambda>v k. if v = VStr [] \<and> k = ''length'' then VNum 0 else VUndefined),
      apply_fn = (\<lambda>f calls this args. Inr VUndefined),
      unary = (\<lambda>operator a. Inr VUndefined),
      binary = (\<lambda>operator a b. Inr VUndefined),
      property_key = (\<lambda>v. ''[object Object]'')\<rparr>"

text \<open>
  A host whose function number 0 returns another function the first time it is called and
  the \<^verbatim>\<open>Function\<close> constructor every time after that (as a method that takes the next
  element of a list does), and whose \<^verbatim>\<open>Function\<close> constructor returns a new function.
\<close>

definition stateful_host :: host where
  "stateful_host =
     plain_host\<lparr>apply_fn := (\<lambda>f calls this args.
        if f = HostFunction 0
        then (if calls = [] then Inr (VFun (HostFunction 1)) else Inr (VFun FunctionConstructor))
        else if f = FunctionConstructor then Inr (VFun (HostFunction 2))
        else Inr VUndefined)\<rparr>"

text \<open>
  What a guarded chain of member reads is to yield, in the words of the specification:
  each read happens only on a truthy value, and the chain is \<^verbatim>\<open>undefined\<close> as soon as
  one is not.
\<close>

fun guarded_chain :: "host \<Rightarrow> val \<Rightarrow> string list \<Rightarrow> val" where
  "guarded_chain H v [] = v"
| "guarded_chain H v (k # ks) =
     (if truthy v then guarded_chain H (property H v k) ks else VUndefined)"

text \<open>
  The shape of a statement of \<open>body\<close>: an \<^verbatim>\<open>if\<close> holds one assignment and nothing
  else, and a slot that is assigned lies between two values of the counter.
\<close>

fun statement_ok :: "nat \<Rightarrow> nat \<Rightarrow> jstmt \<Rightarrow> bool" where
  "statement_ok lo hi (JIf test (JAssign n e)) = (lo \<le> n \<and> n < hi)"
| "statement_ok lo hi (JIf test other) = False"
| "statement_ok lo hi (JAssign n e) = (lo \<le> n \<and> n < hi)"
| "statement_ok lo hi other = True"

fun is_guard :: "jstmt \<Rightarrow> bool" where
  "is_guard (JEnsureSafeFn c) = True"
| "is_guard other = False"

text \<open>
  The statements pushed between two compiler states, and what a lowering that goes from
  \<open>st\<close> to \<open>st'\<close> has done: it has only appended to \<open>body\<close>, each new statement has the
  shape above for the slots declared meanwhile, and \<open>n\<close> of them are guard calls.
\<close>

definition emitted :: "state \<Rightarrow> state \<Rightarrow> jstmt list" where
  "emitted st st' = drop (length (body st)) (body st')"

definition emits :: "nat \<Rightarrow> state \<Rightarrow> state \<Rightarrow> bool" where
  "emits n st st' =
     (id' st \<le> id' st' \<and> body st' = body st @ emitted st st' \<and>
      list_all (statement_ok (id' st) (id' st')) (emitted st st') \<and>
      length (filter is_guard (emitted st st')) = n)"

text \<open>
  The number of \<open>CallExpression\<close> nodes that \<^verbatim>\<open>recurse\<close> visits in a tree. It does not
  visit the property of a member access that is not computed, nor a key that is an
  \<open>Identifier\<close>.
\<close>

primrec calls_lowered :: "AST \<Rightarrow> nat" where
  "calls_lowered (Program stmts) = sum_list (map calls_lowered stmts)"
| "calls_lowered (ConditionalExpression test consequent alternate) =
     calls_lowered test + calls_lowered consequent + calls_lowered alternate"
| "calls_lowered (LogicalExpression operator left right) =
     calls_lowered left + calls_lowered right"
| "calls_lowered (BinaryExpression operator left right) =
     calls_lowered left + calls_lowered right"
| "calls_lowered (UnaryExpression operator argument) = calls_lowered argument"
| "calls_lowered (CallExpression callee arguments) =
     calls_lowered callee + sum_list (map calls_lowered arguments) + 1"
| "calls_lowered (MemberExpression obj prp computed) =
     calls_lowered obj + (if computed then calls_lowered prp else 0)"
| "calls_lowered (ArrayExpression elements) =
     sum_list (map (\<lambda>e. case e of None \<Rightarrow> 0 | Some n \<Rightarrow> n)
                   (map (map_option calls_lowered) elements))"
| "calls_lowered (ObjectExpression properties) =
     sum_list (map (\<lambda>((key, _), k, v). (case key of Identifier name \<Rightarrow> 0 | _ \<Rightarrow> k) + v)
                   (zip properties (map (map_prod calls_lowered calls_lowered) properties)))"
| "calls_lowered (Identifier name) = 0"
| "calls_lowered (Literal v) = 0"
| "calls_lowered Unknown = 0"

text \<open>
  Whether \<^verbatim>\<open>recurse\<close>, walking a tree, comes to a \<open>Program\<close> with no statement. The
  walk goes where \<open>calls_lowered\<close> counts: not into the property of a member access that
  is not computed, not into a key that is an \<open>Identifier\<close>, not into a hole.
\<close>

primrec visits_empty_Program :: "AST \<Rightarrow> bool" where
  "visits_empty_Program (Program stmts) =
     (stmts = [] \<or> list_ex (\<lambda>b. b) (map visits_empty_Program stmts))"
| "visits_empty_Program (ConditionalExpression test consequent alternate) =
     (visits_empty_Program test \<or> visits_empty_Program consequent \<or>
      visits_empty_Program alternate)"
| "visits_empty_Program (LogicalExpression operator left right) =
     (visits_empty_Program left \<or> visits_empty_Program right)"
| "visits_empty_Program (BinaryExpression operator left right) =
     (visits_empty_Program left \<or> visits_empty_Program right)"
| "visits_empty_Program (UnaryExpression operator argument) = visits_empty_Program argument"
| "visits_empty_Program (CallExpression callee arguments) =
     (visits_empty_Program callee \<or> list_ex (\<lambda>b. b) (map visits_empty_Program arguments))"
| "visits_empty_Program (MemberExpression obj prp computed) =
     (visits_empty_Program obj \<or> (computed \<and> visits_empty_Program prp))"
| "visits_empty_Program (ArrayExpression elements) =
     list_ex (\<lambda>e. case e of None \<Rightarrow> False | Some b \<Rightarrow> b)
             (map (map_option visits_empty_Program) elements)"
| "visits_empty_Program (ObjectExpression properties) =
     list_ex (\<lambda>((key, _), k, v). (case key of Identifier name \<Rightarrow> False | _ \<Rightarrow> k) \<or> v)
             (zip properties (map (map_prod visits_empty_Program visits_empty_Program) properties))"
| "visits_empty_Program (Identifier name) = False"
| "visits_empty_Program (Literal v) = False"
| "visits_empty_Program Unknown = False"

text \<open>
  The value a \<open>Literal\<close> carries, and the literals whose text needs no escaping: every
  number, boolean and \<^verbatim>\<open>null\<close>, and a string without quote, backslash or line break.
\<close>

fun literal_value :: "literal \<Rightarrow> val" where
  "literal_value (LStr s) = VStr s"
| "literal_value (LNum n) = VNum n"
| "literal_value (LBool b) = VBool b"
| "literal_value LNull = VNull"

definition plain_char :: "char \<Rightarrow> bool" where
  "plain_char c = (c \<noteq> quote \<and> c \<noteq> backslash \<and> c \<noteq> CHR 0x0A \<and> c \<noteq> CHR 0x0D)"

fun plain_literal :: "literal \<Rightarrow> bool" where
  "plain_literal (LStr s) = list_all plain_char s"
| "plain_literal other = True"

section \<open>Basic facts\<close>

lemmas unit_defs =
  evaluate_def compile_def new_Function_def variableDeclaration_def push_def call_unit_def

lemmas host_defs = property_def plain_host_def ensureSafeFn_def invoke_call_def call_fn_def

lemmas token_defs = name_token_def name_start_def name_part_def unary_operators_def
  binary_operators_def

lemmas literal_defs =
  read_literal_def show_int_def show_nat.simps decimal_digit_def read_decimal_def digit_of_def
  quote_def backslash_def unterminated_string_def name_part_def name_start_def

lemma truthy_get_property [simp]:
  "truthy v \<Longrightarrow> get_property H v k = Inr (property H v k)"
  by (cases v) (simp_all add: get_property_def)


lemma read_body_append:
  "read_body (xs @ ys) =
     (case read_body xs of
        Inl err \<Rightarrow> Inl err
      | Inr ps \<Rightarrow> (case read_body ys of Inl err \<Rightarrow> Inl err | Inr qs \<Rightarrow> Inr (ps @ qs)))"
  by (induction xs) (auto split: sum.splits)

lemma exec_body_append:
  "exec_body H ctx (ps @ qs) env calls =
     (case exec_body H ctx ps env calls of
        Inl f \<Rightarrow> Inl f
      | Inr ((Returned v, env1), calls1) \<Rightarrow> Inr ((Returned v, env1), calls1)
      | Inr ((Normal, env1), calls1) \<Rightarrow> exec_body H ctx qs env1 calls1)"
  by (induction ps arbitrary: env calls) (auto split: sum.splits completion.splits)


section \<open>Identifiers and member chains\<close>

lemma guarded_chain_append:
  "guarded_chain H v (ks @ ks') = guarded_chain H (guarded_chain H v ks) ks'"
proof (induction ks arbitrary: v)
  case Nil
  show ?case by simp
next
  case (Cons k ks)
  show ?case
  proof (cases "truthy v")
    case True
    with Cons show ?thesis by simp
  next
    case False
    then show ?thesis by (cases ks') simp_all
  qed
qed

lemma guarded_chain_absent:
  assumes "guarded_chain H v ks = VNull \<or> guarded_chain H v ks = VUndefined"
  shows "guarded_chain H v (ks @ k # ks') = VUndefined"
  using assms by (auto simp: guarded_chain_append)

text \<open>
  C5. The tree of the expression \<^verbatim>\<open>x\<close> is a \<open>Program\<close> whose one statement is the
  \<open>Identifier\<close> named \<open>x\<close> (a compiled unit returns a value only through the
  \<^verbatim>\<open>return\<close> that the \<open>Program\<close> case emits). Called with the context \<^verbatim>\<open>null\<close> or
  \<^verbatim>\<open>undefined\<close>, its compiled unit returns \<^verbatim>\<open>undefined\<close> and does not fault; called
  with the context \<^verbatim>\<open>{x: 5}\<close>, it returns \<^verbatim>\<open>5\<close>. With any context at all it returns
  the context's \<open>x\<close> if the context is truthy and \<^verbatim>\<open>undefined\<close> if not.
\<close>

theorem identifier_read:
  assumes "name_token x"
  shows "evaluate H (Program [Identifier x]) VNull = Inr (Inr (VUndefined, []))
   \<and> evaluate H (Program [Identifier x]) VUndefined = Inr (Inr (VUndefined, []))
   \<and> evaluate H (Program [Identifier x]) (VObj [(x, VNum 5)]) = Inr (Inr (VNum 5, []))
   \<and> evaluate H (Program [Identifier x]) ctx =
       Inr (Inr (if truthy ctx then property H ctx x else VUndefined, []))"
  using assms by (simp add: unit_defs property_def)

theorem identifier_read_witness:
  "evaluate plain_host (Program [Identifier ''x'']) VNull = Inr (Inr (VUndefined, []))
   \<and> evaluate plain_host (Program [Identifier ''x'']) (VObj [(''x'', VNum 5)]) =
       Inr (Inr (VNum 5, []))"
proof -
  have "name_token ''x''"
    by (simp add: token_defs)
  from identifier_read [OF this, of plain_host VNull] show ?thesis
    by simp
qed

text \<open>
  C4. The tree of the chain \<^verbatim>\<open>a.b.c\<close> is a \<open>Program\<close> whose one statement is the
  \<open>MemberExpression\<close> of \<open>c\<close> on the \<open>MemberExpression\<close> of \<open>b\<close> on the \<open>Identifier\<close>
  \<open>a\<close>. Its compiled unit never faults: with any context it returns what the guarded
  chain yields. With the context \<^verbatim>\<open>{a: null}\<close> that is \<^verbatim>\<open>undefined\<close>, with
  \<^verbatim>\<open>{a: {b: {c: 7}}}\<close> it is \<^verbatim>\<open>7\<close>, and it is \<^verbatim>\<open>undefined\<close> whenever the context,
  \<^verbatim>\<open>a\<close> or \<^verbatim>\<open>a.b\<close> is \<^verbatim>\<open>null\<close> or \<^verbatim>\<open>undefined\<close>.
\<close>

theorem member_chain:
  assumes "name_token a" and "name_token b" and "name_token c"
  shows "evaluate H (Program [MemberExpression
                              (MemberExpression (Identifier a) (Identifier b) False)
                              (Identifier c) False]) ctx =
     Inr (Inr (guarded_chain H ctx [a, b, c], []))
   \<and> evaluate H (Program [MemberExpression
                              (MemberExpression (Identifier a) (Identifier b) False)
                              (Identifier c) False]) (VObj [(a, VNull)]) =
     Inr (Inr (VUndefined, []))
   \<and> evaluate H (Program [MemberExpression
                              (MemberExpression (Identifier a) (Identifier b) False)
                              (Identifier c) False])
         (VObj [(a, VObj [(b, VObj [(c, VNum 7)])])]) =
     Inr (Inr (VNum 7, []))
   \<and> (\<forall>ks k ks'. ks @ k # ks' = [a, b, c] \<longrightarrow>
          (guarded_chain H ctx ks = VNull \<or> guarded_chain H ctx ks = VUndefined) \<longrightarrow>
          evaluate H (Program [MemberExpression
                                 (MemberExpression (Identifier a) (Identifier b) False)
                                 (Identifier c) False]) ctx =
            Inr (Inr (VUndefined, [])))"
proof -
  let ?ast = "Program [MemberExpression (MemberExpression (Identifier a) (Identifier b) False)
                         (Identifier c) False]"
  have run: "evaluate H ?ast ctx' = Inr (Inr (guarded_chain H ctx' [a, b, c], []))" for ctx'
    using assms by (simp add: unit_defs)
  have null: "guarded_chain H (VObj [(a, VNull)]) [a, b, c] = VUndefined"
    by (simp add: property_def)
  have seven: "guarded_chain H (VObj [(a, VObj [(b, VObj [(c, VNum 7)])])]) [a, b, c] = VNum 7"
    by (simp add: property_def)
  have absent: "guarded_chain H ctx [a, b, c] = VUndefined"
    if "ks @ k # ks' = [a, b, c]"
      and "guarded_chain H ctx ks = VNull \<or> guarded_chain H ctx ks = VUndefined"
    for ks k ks'
    using guarded_chain_absent [OF that(2), of k ks'] that(1) by simp
  show ?thesis
    using run null seven absent by (metis (no_types, lifting))
qed

theorem member_chain_witness:
  "evaluate plain_host
     (Program [MemberExpression (MemberExpression (Identifier ''a'') (Identifier ''b'') False)
                 (Identifier ''c'') False]) (VObj [(''a'', VNull)]) =
     Inr (Inr (VUndefined, []))
   \<and> guarded_chain plain_host (VObj [(''a'', VNull)]) [''a''] = VNull"
proof -
  have names: "name_token ''a''" "name_token ''b''" "name_token ''c''"
    by (simp_all add: token_defs)
  have link: "guarded_chain plain_host (VObj [(''a'', VNull)]) [''a''] = VNull"
    by (simp add: property_def)
  have split: "[''a''] @ ''b'' # [''c''] = [''a'', ''b'', ''c'']"
    by simp
  from member_chain [OF names, of plain_host "VObj [(''a'', VNull)]"]
  have "evaluate plain_host
     (Program [MemberExpression (MemberExpression (Identifier ''a'') (Identifier ''b'') False)
                 (Identifier ''c'') False]) (VObj [(''a'', VNull)]) =
     Inr (Inr (VUndefined, []))"
    using link split by blast
  with link show ?thesis by simp
qed

section \<open>Literals\<close>

lemma decimal_digits_checked:
  "list_all (\<lambda>d. digit_of (decimal_digit d) = Some d \<and> decimal_digit d \<noteq> quote \<and>
                  decimal_digit d \<noteq> CHR ''-'' \<and> decimal_digit d \<noteq> CHR ''t'' \<and>
                  decimal_digit d \<noteq> CHR ''f'' \<and> decimal_digit d \<noteq> CHR ''n'' \<and>
                  (decimal_digit d = CHR ''0'' \<longrightarrow> d = 0))
     [0..<10]"
  by (simp add: numeral_eq_Suc decimal_digit_def digit_of_def quote_def)

lemma decimal_digit_facts:
  assumes "d < 10"
  shows "digit_of (decimal_digit d) = Some d"
    and "decimal_digit d \<noteq> quote" and "decimal_digit d \<noteq> CHR ''-''"
    and "decimal_digit d \<noteq> CHR ''t''" and "decimal_digit d \<noteq> CHR ''f''"
    and "decimal_digit d \<noteq> CHR ''n''"
    and "decimal_digit d = CHR ''0'' \<Longrightarrow> d = 0"
  using decimal_digits_checked assms by (simp_all add: list_all_iff)

lemma read_digits_append:
  "read_digits acc (xs @ ys) =
     (case read_digits acc xs of None \<Rightarrow> None | Some m \<Rightarrow> read_digits m ys)"
  by (induction xs arbitrary: acc) (auto split: option.splits)

lemma read_digits_show_nat: "read_digits 0 (show_nat n) = Some n"
proof (induction n rule: show_nat.induct)
  case (1 n)
  show ?case
  proof (cases "n < 10")
    case True
    then show ?thesis
      by (subst show_nat.simps) (simp add: decimal_digit_facts)
  next
    case False
    then have "read_digits 0 (show_nat (n div 10)) = Some (n div 10)"
      using 1 by simp
    with False show ?thesis
      by (subst show_nat.simps) (simp add: read_digits_append decimal_digit_facts)
  qed
qed

lemma show_nat_head:
  "\<exists>d cs. show_nat n = decimal_digit d # cs \<and> d < 10 \<and> (d = 0 \<longrightarrow> cs = [])"
proof (induction n rule: show_nat.induct)
  case (1 n)
  show ?case
  proof (cases "n < 10")
    case True
    then show ?thesis
      by (subst show_nat.simps) auto
  next
    case False
    then obtain d cs where
      head: "show_nat (n div 10) = decimal_digit d # cs" "d < 10" "d = 0 \<longrightarrow> cs = []"
      using 1 by blast
    have "d \<noteq> 0"
    proof
      assume "d = 0"
      with head have "show_nat (n div 10) = [decimal_digit 0]" by simp
      then have "read_digits 0 (show_nat (n div 10)) = Some 0"
        by (simp add: decimal_digit_facts)
      then have "n div 10 = 0"
        by (simp add: read_digits_show_nat)
      with False show False by simp
    qed
    with head False show ?thesis
      by (subst show_nat.simps) auto
  qed
qed

lemma read_decimal_show_nat: "read_decimal (show_nat n) = Some n"
proof -
  obtain d cs where s: "show_nat n = decimal_digit d # cs" "d < 10" "d = 0 \<longrightarrow> cs = []"
    using show_nat_head by blast
  then have "\<not> (decimal_digit d = CHR ''0'' \<and> cs \<noteq> [])"
    using decimal_digit_facts(7) [of d] by auto
  then show ?thesis
    using s read_digits_show_nat [of n] by (simp add: read_decimal_def)
qed

lemma read_literal_number: "read_literal (show_int n) = Inr (VNum n)"
proof (cases "n < 0")
  case True
  then show ?thesis
    by (simp add: read_literal_def show_int_def read_decimal_show_nat quote_def)
next
  case False
  obtain d cs where s: "show_nat (nat n) = decimal_digit d # cs" "d < 10"
    using show_nat_head by blast
  have "read_decimal (show_nat (nat n)) = Some (nat n)"
    by (rule read_decimal_show_nat)
  with False s decimal_digit_facts [OF s(2)] show ?thesis
    by (auto simp: read_literal_def show_int_def)
qed

lemma string_token_plain:
  "list_all plain_char s \<Longrightarrow> string_token (s @ [quote]) = Some (s, [])"
proof (induction s)
  case Nil
  show ?case by simp
next
  case (Cons c s)
  then have "string_token (s @ [quote]) = Some (s, [])" by simp
  moreover obtain d cs where "s @ [quote] = d # cs"
    by (cases s) auto
  ultimately show ?case
    using Cons.prems by (auto simp: plain_char_def)
qed

lemma read_literal_string:
  "list_all plain_char s \<Longrightarrow> read_literal (quote # s @ [quote]) = Inr (VStr s)"
  by (simp add: read_literal_def string_token_plain) (simp add: quote_def)

lemma literal_returned:
  "plain_literal l \<Longrightarrow> evaluate H (Program [Literal l]) ctx = Inr (Inr (literal_value l, []))"
proof (cases l)
  case (LStr s)
  assume "plain_literal l"
  with LStr show ?thesis
    by (simp add: unit_defs read_literal_string)
next
  case (LNum n)
  then show ?thesis
    by (simp add: unit_defs read_literal_number)
next
  case (LBool b)
  then show ?thesis
    by (simp add: unit_defs read_literal_def)
next
  case LNull
  then show ?thesis
    by (simp add: unit_defs read_literal_def)
qed

text \<open>
  C6. A \<open>Literal\<close> is to come back unchanged from the compiled unit, a string with quote
  characters in it included. The \<open>Literal\<close> case puts a string between two quotes as it
  is (\<^verbatim>\<open>`'${ast.value}'`\<close>), so nothing is escaped: for the value \<^verbatim>\<open>it's\<close> the text is
  \<^verbatim>\<open>'it's'\<close>, in which the string token ends after \<^verbatim>\<open>it\<close> and the rest, \<^verbatim>\<open>s'\<close>,
  opens a string that never ends. \<^verbatim>\<open>new Function\<close> throws a \<open>SyntaxError\<close> and no unit
  is produced. (Numbers, booleans, \<^verbatim>\<open>null\<close> and strings without quote, backslash or
  line break do come back unchanged: \<open>literal_returned\<close>.)
\<close>

theorem string_literal_not_escaped:
  "recurse (Literal (LStr ''it's'')) \<lparr>id' = 0, vars = [], body = []\<rparr> =
     Inr ((JText (quote # ''it's'' @ [quote]), JCtx), \<lparr>id' = 0, vars = [], body = []\<rparr>)
   \<and> string_token (''it's'' @ [quote]) = Some (''it'', ''s'' @ [quote])
   \<and> compile (Program [Literal (LStr ''it's'')]) = Inl SyntaxError"
  by (simp add: unit_defs literal_defs)

section \<open>What a lowering emits\<close>

lemma statement_ok_widen:
  "statement_ok lo hi s \<Longrightarrow> lo' \<le> lo \<Longrightarrow> hi \<le> hi' \<Longrightarrow> statement_ok lo' hi' s"
  by (induction lo hi s rule: statement_ok.induct) auto

lemma emitsI:
  assumes "id' st \<le> id' st'" and "body st' = body st @ new"
    and "list_all (statement_ok (id' st) (id' st')) new"
    and "length (filter is_guard new) = n"
  shows "emits n st st'"
  using assms by (simp add: emits_def emitted_def)

lemma emitsE:
  assumes "emits n st st'"
  obtains new where "id' st \<le> id' st'" and "body st' = body st @ new"
    and "list_all (statement_ok (id' st) (id' st')) new"
    and "length (filter is_guard new) = n" and "emitted st st' = new"
  using assms by (auto simp: emits_def)

lemma emits_refl: "emits 0 st st"
  by (rule emitsI [where new = "[]"]) simp_all

lemma emits_trans:
  assumes "emits m st st1" and "emits n st1 st2"
  shows "emits (m + n) st st2"
proof -
  from assms(1) obtain new1 where 1: "id' st \<le> id' st1" "body st1 = body st @ new1"
    "list_all (statement_ok (id' st) (id' st1)) new1" "length (filter is_guard new1) = m"
    by (rule emitsE)
  from assms(2) obtain new2 where 2: "id' st1 \<le> id' st2" "body st2 = body st1 @ new2"
    "list_all (statement_ok (id' st1) (id' st2)) new2" "length (filter is_guard new2) = n"
    by (rule emitsE)
  have "list_all (statement_ok (id' st) (id' st2)) (new1 @ new2)"
    using 1 2 by (auto simp: list_all_iff intro: statement_ok_widen)
  with 1 2 show ?thesis
    by (intro emitsI [where new = "new1 @ new2"]) auto
qed

lemma emits_declare:
  assumes "variableDeclaration st = (v, st1)"
  shows "emits 0 st st1" and "v = id' st" and "id' st1 = Suc (id' st)"
  using assms by (auto simp: variableDeclaration_def intro!: emitsI [where new = "[]"])

lemma emits_push:
  assumes "emits n st0 st" and "statement_ok (id' st0) (id' st) s"
  shows "emits (n + (if is_guard s then 1 else 0)) st0 (push s st)"
proof -
  from assms(1) obtain new where 1: "id' st0 \<le> id' st" "body st = body st0 @ new"
    "list_all (statement_ok (id' st0) (id' st)) new" "length (filter is_guard new) = n"
    by (rule emitsE)
  show ?thesis
    using 1 assms(2) by (intro emitsI [where new = "new @ [s]"]) (auto simp: push_def)
qed

lemma emits_push0:
  assumes "emits n st0 st" and "statement_ok (id' st0) (id' st) s" and "\<not> is_guard s"
  shows "emits n st0 (push s st)"
  using emits_push [OF assms(1,2)] assms(3) by simp

lemma emits_id: "emits n st st' \<Longrightarrow> id' st \<le> id' st'"
  by (simp add: emits_def)

lemma recurse_arguments_emits:
  assumes "\<And>x st r st'. x \<in> set xs \<Longrightarrow> recurse x st = Inr (r, st') \<Longrightarrow> emits (calls_lowered x) st st'"
    and "recurse_arguments (map recurse xs) st = Inr (as, st')"
  shows "emits (sum_list (map calls_lowered xs)) st st'"
  using assms
proof (induction xs arbitrary: st as st')
  case Nil
  then show ?case by (simp add: emits_refl)
next
  case (Cons x xs)
  from Cons.prems(2) obtain a c st1 as' where
    x: "recurse x st = Inr ((a, c), st1)" and
    rest: "recurse_arguments (map recurse xs) st1 = Inr (as', st')"
    by (auto split: sum.splits)
  have "emits (calls_lowered x) st st1"
    using Cons.prems(1) x by simp
  moreover have "emits (sum_list (map calls_lowered xs)) st1 st'"
    using Cons.IH Cons.prems(1) rest by simp
  ultimately show ?case
    using emits_trans by fastforce
qed

lemma recurse_elements_emits:
  assumes "\<And>x y st r st'. x \<in> set xs \<Longrightarrow> y \<in> set_option x \<Longrightarrow> recurse y st = Inr (r, st')
             \<Longrightarrow> emits (calls_lowered y) st st'"
    and "recurse_elements (map (map_option recurse) xs) st = Inr (es, st')"
  shows "emits (sum_list (map (\<lambda>e. case e of None \<Rightarrow> 0 | Some n \<Rightarrow> n)
                               (map (map_option calls_lowered) xs))) st st'"
  using assms
proof (induction xs arbitrary: st es st')
  case Nil
  then show ?case by (simp add: emits_refl)
next
  case (Cons x xs)
  show ?case
  proof (cases x)
    case None
    with Cons.prems(2) obtain es' where
      rest: "recurse_elements (map (map_option recurse) xs) st = Inr (es', st')"
      by (auto split: sum.splits)
    have "emits (sum_list (map (\<lambda>e. case e of None \<Rightarrow> 0 | Some n \<Rightarrow> n)
                               (map (map_option calls_lowered) xs))) st st'"
      using Cons.IH Cons.prems(1) rest by simp
    with None show ?thesis by simp
  next
    case (Some y)
    with Cons.prems(2) obtain a c st1 es' where
      y: "recurse y st = Inr ((a, c), st1)" and
      rest: "recurse_elements (map (map_option recurse) xs) st1 = Inr (es', st')"
      by (auto split: sum.splits)
    have "emits (calls_lowered y) st st1"
      using Cons.prems(1) [of x y] y Some by simp
    moreover have "emits (sum_list (map (\<lambda>e. case e of None \<Rightarrow> 0 | Some n \<Rightarrow> n)
                               (map (map_option calls_lowered) xs))) st1 st'"
      using Cons.IH Cons.prems(1) rest by simp
    ultimately show ?thesis
      using emits_trans Some by fastforce
  qed
qed

lemma recurse_properties_emits:
  assumes "\<And>k v st r st'. (k, v) \<in> set xs \<Longrightarrow> recurse k st = Inr (r, st')
             \<Longrightarrow> emits (calls_lowered k) st st'"
    and "\<And>k v st r st'. (k, v) \<in> set xs \<Longrightarrow> recurse v st = Inr (r, st')
             \<Longrightarrow> emits (calls_lowered v) st st'"
    and "recurse_properties (zip xs (map (map_prod recurse recurse) xs)) st = Inr (ps, st')"
  shows "emits (sum_list (map (\<lambda>((key, _), k, v). (case key of Identifier name \<Rightarrow> 0 | _ \<Rightarrow> k) + v)
                   (zip xs (map (map_prod calls_lowered calls_lowered) xs)))) st st'"
  using assms
proof (induction xs arbitrary: st ps st')
  case Nil
  then show ?case by (simp add: emits_refl)
next
  case (Cons x xs)
  obtain key val where x: "x = (key, val)" by (cases x)
  from Cons.prems(3) x obtain k c st1 v c' st2 ps' where
    k: "(case key of Identifier name \<Rightarrow> Inr ((JName name, JCtx), st) | _ \<Rightarrow> recurse key st)
          = Inr ((k, c), st1)" and
    v: "recurse val st1 = Inr ((v, c'), st2)" and
    rest: "recurse_properties (zip xs (map (map_prod recurse recurse) xs)) st2 = Inr (ps', st')"
    by (auto split: sum.splits)
  have "emits (case key of Identifier name \<Rightarrow> 0 | _ \<Rightarrow> calls_lowered key) st st1"
  proof (cases "\<exists>name. key = Identifier name")
    case True
    with k show ?thesis by (auto simp: emits_refl)
  next
    case False
    then have "recurse key st = Inr ((k, c), st1)"
      using k by (cases key) auto
    then have "emits (calls_lowered key) st st1"
      using Cons.prems(1) [of key val] x by simp
    with False show ?thesis by (cases key) auto
  qed
  moreover have "emits (calls_lowered val) st1 st2"
    using Cons.prems(2) [of key val] v x by simp
  moreover have "emits (sum_list (map (\<lambda>((key, _), k, v). (case key of Identifier name \<Rightarrow> 0 | _ \<Rightarrow> k) + v)
                   (zip xs (map (map_prod calls_lowered calls_lowered) xs)))) st2 st'"
  proof (rule Cons.IH [OF _ _ rest])
    show "emits (calls_lowered k) st st'" if "(k, v) \<in> set xs" "recurse k st = Inr (r, st')"
      for k v st r st'
      using Cons.prems(1) [of k v st r st'] that by simp
    show "emits (calls_lowered v) st st'" if "(k, v) \<in> set xs" "recurse v st = Inr (r, st')"
      for k v st r st'
      using Cons.prems(2) [of k v st r st'] that by simp
  qed
  ultimately show ?case
    using emits_trans [OF emits_trans] x by fastforce
qed

lemma recurse_body_emits:
  assumes "\<And>x st r st'. x \<in> set xs \<Longrightarrow> recurse x st = Inr (r, st') \<Longrightarrow> emits (calls_lowered x) st st'"
    and "recurse_body (map recurse xs) st = Inr st'"
  shows "emits (sum_list (map calls_lowered xs)) st st'"
  using assms
proof (induction xs arbitrary: st st')
  case Nil
  then show ?case by simp
next
  case (Cons x xs)
  show ?case
  proof (cases xs)
    case Nil
    with Cons.prems(2) obtain e c st1 where
      x: "recurse x st = Inr ((e, c), st1)" and st': "st' = push (JReturn e) st1"
      by (auto split: sum.splits)
    have "emits (calls_lowered x) st st1"
      using Cons.prems(1) x by simp
    then show ?thesis
      using Nil st' by (auto intro: emits_push0)
  next
    case (Cons y ys)
    with Cons.prems(2) obtain e c st1 where
      x: "recurse x st = Inr ((e, c), st1)" and
      rest: "recurse_body (map recurse xs) (push (JExpr e) st1) = Inr st'"
      by (auto split: sum.splits)
    have "emits (calls_lowered x) st st1"
      using Cons.prems(1) x by simp
    then have a: "emits (calls_lowered x) st (push (JExpr e) st1)"
      by (auto intro: emits_push0)
    have "emits (sum_list (map calls_lowered xs)) (push (JExpr e) st1) st'"
      using Cons.IH Cons.prems(1) rest by simp
    with a show ?thesis
      using emits_trans by fastforce
  qed
qed

lemma recurse_emits:
  "recurse a st = Inr (r, st') \<Longrightarrow> emits (calls_lowered a) st st'"
proof (induction a arbitrary: st r st')
  case (Program stmts)
  from Program.prems obtain st1 where
    "recurse_body (map recurse stmts) st = Inr st1" and "st' = st1"
    by (auto split: sum.splits)
  then show ?case
    using recurse_body_emits [of stmts st st'] Program.IH by simp
next
  case (ConditionalExpression test consequent alternate)
  obtain variable st1 where d1: "variableDeclaration st = (variable, st1)"
    by (cases "variableDeclaration st")
  obtain testVariable st2 where d2: "variableDeclaration st1 = (testVariable, st2)"
    by (cases "variableDeclaration st1")
  from ConditionalExpression.prems d1 d2 obtain t ct st3 c cc st4 a ca st5 where
    t: "recurse test st2 = Inr ((t, ct), st3)" and
    c: "recurse consequent (push (assign testVariable t) st3) = Inr ((c, cc), st4)" and
    a: "recurse alternate (push (if_stmt (JSlot testVariable) (assign variable c)) st4)
          = Inr ((a, ca), st5)" and
    st': "st' = push (if_stmt (not (JSlot testVariable)) (assign variable a)) st5"
    by (auto split: sum.splits)
  note v = emits_declare [OF d1] and tv = emits_declare [OF d2]
  have e2: "emits 0 st st2"
    using emits_trans [OF v(1) tv(1)] by simp
  have e3: "emits (calls_lowered test) st st3"
    using emits_trans [OF e2 ConditionalExpression.IH(1) [OF t]] by simp
  have e3': "emits (calls_lowered test) st (push (assign testVariable t) st3)"
    using e3 v tv emits_id [OF ConditionalExpression.IH(1) [OF t]]
    by (intro emits_push0) auto
  have e4: "emits (calls_lowered test + calls_lowered consequent) st st4"
    using emits_trans [OF e3' ConditionalExpression.IH(2) [OF c]] .
  have id4: "id' st2 \<le> id' st4"
    using emits_id [OF ConditionalExpression.IH(1) [OF t]]
      emits_id [OF ConditionalExpression.IH(2) [OF c]] by (simp add: push_def)
  have e4': "emits (calls_lowered test + calls_lowered consequent) st
               (push (if_stmt (JSlot testVariable) (assign variable c)) st4)"
    using e4 v tv id4 by (intro emits_push0) auto
  have e5: "emits (calls_lowered test + calls_lowered consequent + calls_lowered alternate) st st5"
    using emits_trans [OF e4' ConditionalExpression.IH(3) [OF a]] .
  have id5: "id' st2 \<le> id' st5"
    using id4 emits_id [OF ConditionalExpression.IH(3) [OF a]] by (simp add: push_def)
  show ?case
    unfolding st' using e5 v tv id5 by (auto intro!: emits_push0)
next
  case (LogicalExpression operator left right)
  obtain variable st1 where d1: "variableDeclaration st = (variable, st1)"
    by (cases "variableDeclaration st")
  from LogicalExpression.prems d1 obtain l cl st2 r' cr st3 where
    l: "recurse left st1 = Inr ((l, cl), st2)" and
    r: "recurse right (push (assign variable l) st2) = Inr ((r', cr), st3)" and
    st': "st' = push (if_stmt (if operator = ''&&'' then JSlot variable else not (JSlot variable))
                        (assign variable r')) st3"
    by (auto split: sum.splits)
  note v = emits_declare [OF d1]
  have e2: "emits (calls_lowered left) st st2"
    using emits_trans [OF v(1) LogicalExpression.IH(1) [OF l]] by simp
  have id2: "id' st1 \<le> id' st2"
    using emits_id [OF LogicalExpression.IH(1) [OF l]] .
  have e2': "emits (calls_lowered left) st (push (assign variable l) st2)"
    using e2 v id2 by (intro emits_push0) auto
  have e3: "emits (calls_lowered left + calls_lowered right) st st3"
    using emits_trans [OF e2' LogicalExpression.IH(2) [OF r]] .
  have id3: "id' st1 \<le> id' st3"
    using id2 emits_id [OF LogicalExpression.IH(2) [OF r]] by (simp add: push_def)
  show ?case
    unfolding st' using e3 v id3 by (auto intro!: emits_push0)
next
  case (BinaryExpression operator left right)
  from BinaryExpression.prems obtain l cl st1 r' cr where
    l: "recurse left st = Inr ((l, cl), st1)" and
    r: "recurse right st1 = Inr ((r', cr), st')"
    by (auto split: sum.splits)
  show ?case
    using emits_trans [OF BinaryExpression.IH(1) [OF l] BinaryExpression.IH(2) [OF r]] by simp
next
  case (UnaryExpression operator argument)
  from UnaryExpression.prems obtain a ca where
    "recurse argument st = Inr ((a, ca), st')"
    by (auto split: sum.splits)
  then show ?case
    using UnaryExpression.IH by simp
next
  case (CallExpression callee arguments)
  from CallExpression.prems obtain c callContext st1 args st2 where
    c: "recurse callee st = Inr ((c, callContext), st1)" and
    args: "recurse_arguments (map recurse arguments) st1 = Inr (args, st2)" and
    st': "st' = push (JEnsureSafeFn c) st2"
    by (auto split: sum.splits)
  have "emits (sum_list (map calls_lowered arguments)) st1 st2"
    using recurse_arguments_emits [OF _ args] CallExpression.IH(2) by simp
  then have "emits (calls_lowered callee + sum_list (map calls_lowered arguments)) st st2"
    using emits_trans [OF CallExpression.IH(1) [OF c]] by simp
  then show ?case
    unfolding st' using emits_push [of _ st st2 "JEnsureSafeFn c"] by simp
next
  case (MemberExpression obj prp computed)
  obtain variable st1 where d1: "variableDeclaration st = (variable, st1)"
    by (cases "variableDeclaration st")
  from MemberExpression.prems d1 obtain left cl st2 right cr st3 where
    l: "recurse obj st1 = Inr ((left, cl), st2)" and
    p: "(if computed then recurse prp st2
         else Inr ((case prp of Identifier name \<Rightarrow> JName name | _ \<Rightarrow> JNone, JCtx), st2))
          = Inr ((right, cr), st3)" and
    st': "st' = push (if_stmt left (assign variable (member_expr left right computed))) st3"
    by (auto split: sum.splits)
  note v = emits_declare [OF d1]
  have e2: "emits (calls_lowered obj) st st2"
    using emits_trans [OF v(1) MemberExpression.IH(1) [OF l]] by simp
  have e23: "emits (if computed then calls_lowered prp else 0) st2 st3"
    using p MemberExpression.IH(2) by (auto simp: emits_refl split: if_splits)
  have e3: "emits (calls_lowered obj + (if computed then calls_lowered prp else 0)) st st3"
    using emits_trans [OF e2 e23] .
  have id3: "id' st1 \<le> id' st3"
    using emits_id [OF MemberExpression.IH(1) [OF l]] emits_id [OF e23] by simp
  show ?case
    unfolding st' using e3 v id3 by (auto intro!: emits_push0)
next
  case (ArrayExpression elements)
  from ArrayExpression.prems obtain es where
    "recurse_elements (map (map_option recurse) elements) st = Inr (es, st')"
    by (auto split: sum.splits)
  then show ?case
    using recurse_elements_emits [of elements st es st'] ArrayExpression.IH by simp
next
  case (ObjectExpression properties)
  from ObjectExpression.prems obtain ps where
    ps: "recurse_properties (zip properties (map (map_prod recurse recurse) properties)) st
          = Inr (ps, st')"
    by (auto split: sum.splits)
  have "emits (sum_list (map (\<lambda>((key, _), k, v). (case key of Identifier name \<Rightarrow> 0 | _ \<Rightarrow> k) + v)
                   (zip properties (map (map_prod calls_lowered calls_lowered) properties)))) st st'"
  proof (rule recurse_properties_emits [OF _ _ ps])
    show "emits (calls_lowered k) st st'"
      if "(k, v) \<in> set properties" "recurse k st = Inr (r, st')" for k v st r st'
      using ObjectExpression.IH(1) [of "(k, v)" k st r st'] that by simp
    show "emits (calls_lowered v) st st'"
      if "(k, v) \<in> set properties" "recurse v st = Inr (r, st')" for k v st r st'
      using ObjectExpression.IH(2) [of "(k, v)" v st r st'] that by simp
  qed
  then show ?case by simp
next
  case (Identifier name)
  then show ?case
    by (auto simp: variableDeclaration_def push_def
          intro!: emitsI [where new = "[if_stmt JCtx (assign (id' st) (member_expr JCtx (JName name) False))]"])
next
  case (Literal v)
  then show ?case by (auto simp: emits_refl)
next
  case Unknown
  then show ?case by (auto simp: emits_refl)
qed

lemma exec_frame:
  assumes "read_stmt s = Inr p" and "statement_ok lo hi s"
    and "exec H ctx p env calls = Inr ((c, env'), calls')" and "n < lo \<or> hi \<le> n"
  shows "env' n = env n"
  using assms
  by (induction lo hi s rule: statement_ok.induct)
     (auto split: sum.splits if_splits)

lemma exec_body_frame:
  assumes "read_body ss = Inr ps" and "list_all (statement_ok lo hi) ss"
    and "exec_body H ctx ps env calls = Inr ((c, env'), calls')" and "n < lo \<or> hi \<le> n"
  shows "env' n = env n"
  using assms
proof (induction ss arbitrary: ps env calls)
  case Nil
  then show ?case by simp
next
  case (Cons s ss)
  from Cons.prems(1) obtain p ps' where
    p: "read_stmt s = Inr p" and ps': "read_body ss = Inr ps'" and ps: "ps = p # ps'"
    by (auto split: sum.splits)
  from Cons.prems(3) ps obtain c1 env1 calls1 where
    s: "exec H ctx p env calls = Inr ((c1, env1), calls1)"
    by (auto split: sum.splits)
  have 1: "env1 n = env n"
    using exec_frame [OF p _ s Cons.prems(4)] Cons.prems(2) by simp
  show ?case
  proof (cases c1)
    case Normal
    with Cons.prems(3) ps s have "exec_body H ctx ps' env1 calls1 = Inr ((c, env'), calls')"
      by simp
    then have "env' n = env1 n"
      using Cons.IH [OF ps' _ _ Cons.prems(4)] Cons.prems(2) by simp
    with 1 show ?thesis by simp
  next
    case (Returned v)
    with Cons.prems(3) ps s have "env' = env1" by simp
    with 1 show ?thesis by simp
  qed
qed

text \<open>
  The statements of \<open>body\<close> assign declared slots only, at the start and after every
  lowering.
\<close>

lemma lowering_keeps_shape:
  assumes "list_all (statement_ok 0 (id' st)) (body st)" and "recurse a st = Inr (r, st')"
  shows "list_all (statement_ok 0 (id' st')) (body st')"
proof -
  from recurse_emits [OF assms(2)] obtain new where
    new: "id' st \<le> id' st'" "body st' = body st @ new"
    "list_all (statement_ok (id' st) (id' st')) new"
    by (rule emitsE)
  then show ?thesis
    using assms(1) by (auto simp: list_all_iff intro: statement_ok_widen)
qed

section \<open>Member access on a falsy object\<close>

text \<open>
  C10. Every \<open>MemberExpression\<close>, wherever it stands in a tree (the statements pushed
  before it assign only slots declared before it), is lowered to the slot
  \<^verbatim>\<open>'v' + id\<close> and ends in the one statement \<^verbatim>\<open>if(left){slot=(left)...;}\<close>, whose
  test is the text of the lowered object. When the statements before it have run and
  that text evaluates to a falsy value (\<^verbatim>\<open>null\<close>, \<^verbatim>\<open>undefined\<close>, \<^verbatim>\<open>0\<close>, the
  empty string, \<^verbatim>\<open>false\<close> or \<^verbatim>\<open>NaN\<close>), the statement assigns nothing, and the
  slot, which nothing else assigns, still holds \<^verbatim>\<open>undefined\<close>: that is what the access
  yields, whatever property the object has.
\<close>

theorem member_falsy_object:
  assumes "list_all (statement_ok 0 (id' st)) (body st)"
    and "recurse (MemberExpression obj prp computed) st = Inr ((e, left), st')"
    and "read_body (body st') = Inr unit"
  shows "\<exists>pl pr pre.
           e = JSlot (id' st) \<and> read left = Inr pl \<and>
           unit = pre @ [PIf pl (PAssign (id' st) pr)] \<and>
           (\<forall>H ctx env1 calls1 v calls2.
              exec_body H ctx pre (\<lambda>_. VUndefined) [] = Inr ((Normal, env1), calls1) \<longrightarrow>
              eval H ctx env1 pl calls1 = Inr (v, calls2) \<longrightarrow> \<not> truthy v \<longrightarrow>
              exec_body H ctx unit (\<lambda>_. VUndefined) [] = Inr ((Normal, env1), calls2) \<and>
              eval H ctx env1 (PSlot (id' st)) calls2 = Inr (VUndefined, calls2))
         \<and> \<not> truthy VNull \<and> \<not> truthy VUndefined \<and> \<not> truthy (VNum 0) \<and> \<not> truthy (VStr [])
         \<and> \<not> truthy (VBool False) \<and> \<not> truthy VNaN
         \<and> (name_token a \<and> name_token b \<and> \<not> truthy w \<longrightarrow>
              evaluate H' (Program [MemberExpression (Identifier a) (Identifier b) False])
                (VObj [(a, w)]) = Inr (Inr (VUndefined, [])))"
proof -
  obtain variable st1 where d1: "variableDeclaration st = (variable, st1)"
    by (cases "variableDeclaration st")
  note v = emits_declare [OF d1]
  from assms(2) d1 obtain cl st2 right cr st3 where
    l: "recurse obj st1 = Inr ((left, cl), st2)" and
    p: "(if computed then recurse prp st2
         else Inr ((case prp of Identifier name \<Rightarrow> JName name | _ \<Rightarrow> JNone, JCtx), st2))
          = Inr ((right, cr), st3)" and
    e: "e = JSlot variable" and
    st': "st' = push (if_stmt left (assign variable (member_expr left right computed))) st3"
    by (auto split: sum.splits)
  have e23: "emits (if computed then calls_lowered prp else 0) st2 st3"
    using p recurse_emits by (auto simp: emits_refl split: if_splits)
  have e13: "emits (calls_lowered obj + (if computed then calls_lowered prp else 0)) st1 st3"
    using emits_trans [OF recurse_emits [OF l] e23] .
  then obtain new where new: "body st3 = body st1 @ new"
    "list_all (statement_ok (id' st1) (id' st3)) new"
    by (rule emitsE)
  have body1: "body st1 = body st"
    using d1 by (auto simp: variableDeclaration_def)
  from assms(3) st' new body1 obtain p0 p1 pl pr where
    p0: "read_body (body st) = Inr p0" and p1: "read_body new = Inr p1" and
    pl: "read left = Inr pl" and
    unit: "unit = (p0 @ p1) @ [PIf pl (PAssign variable pr)]"
    by (auto simp: push_def read_body_append split: sum.splits)
  have "exec_body H ctx unit (\<lambda>_. VUndefined) [] = Inr ((Normal, env1), calls2) \<and>
        eval H ctx env1 (PSlot (id' st)) calls2 = Inr (VUndefined, calls2)"
    if run: "exec_body H ctx (p0 @ p1) (\<lambda>_. VUndefined) [] = Inr ((Normal, env1), calls1)"
      and left: "eval H ctx env1 pl calls1 = Inr (v, calls2)" and falsy: "\<not> truthy v"
    for H ctx env1 calls1 v calls2
  proof -
    from run obtain env0 calls0 where
      r0: "exec_body H ctx p0 (\<lambda>_. VUndefined) [] = Inr ((Normal, env0), calls0)" and
      r1: "exec_body H ctx p1 env0 calls0 = Inr ((Normal, env1), calls1)"
      by (auto simp: exec_body_append split: sum.splits completion.splits)
    have "env0 (id' st) = VUndefined"
      using exec_body_frame [OF p0 assms(1) r0, of "id' st"] by simp
    moreover have "env1 (id' st) = env0 (id' st)"
      using exec_body_frame [OF p1 new(2) r1, of "id' st"] v by simp
    ultimately have slot: "env1 (id' st) = VUndefined" by simp
    have "exec_body H ctx unit (\<lambda>_. VUndefined) [] =
            exec_body H ctx [PIf pl (PAssign variable pr)] env1 calls1"
      unfolding unit by (subst exec_body_append) (simp add: run)
    then show ?thesis
      using left falsy slot by simp
  qed
  with e pl unit v(2) have "\<exists>pl pr pre.
           e = JSlot (id' st) \<and> read left = Inr pl \<and>
           unit = pre @ [PIf pl (PAssign (id' st) pr)] \<and>
           (\<forall>H ctx env1 calls1 v calls2.
              exec_body H ctx pre (\<lambda>_. VUndefined) [] = Inr ((Normal, env1), calls1) \<longrightarrow>
              eval H ctx env1 pl calls1 = Inr (v, calls2) \<longrightarrow> \<not> truthy v \<longrightarrow>
              exec_body H ctx unit (\<lambda>_. VUndefined) [] = Inr ((Normal, env1), calls2) \<and>
              eval H ctx env1 (PSlot (id' st)) calls2 = Inr (VUndefined, calls2))"
    by blast
  moreover have "evaluate H' (Program [MemberExpression (Identifier a) (Identifier b) False])
                (VObj [(a, w)]) = Inr (Inr (VUndefined, []))"
    if "name_token a \<and> name_token b \<and> \<not> truthy w"
    using that by (simp add: unit_defs property_def)
  ultimately show ?thesis by simp
qed

theorem member_falsy_object_witness:
  "exec_body plain_host (VObj [(''a'', VStr [])])
     [PIf PCtx (PAssign 1 (PDot PCtx ''a'')), PIf (PSlot 1) (PAssign 0 (PDot (PSlot 1) ''length''))]
     (\<lambda>_. VUndefined) [] = Inr ((Normal, (\<lambda>_. VUndefined)(1 := VStr [])), [])
   \<and> evaluate plain_host (Program [MemberExpression (Identifier ''a'') (Identifier ''length'') False])
       (VObj [(''a'', VStr [])]) = Inr (Inr (VUndefined, []))
   \<and> property plain_host (VStr []) ''length'' = VNum 0"
proof -
  let ?st = "\<lparr>id' = 0, vars = [], body = []\<rparr>"
  let ?ctx = "VObj [(''a'', VStr [])]"
  let ?unit = "[PIf PCtx (PAssign 1 (PDot PCtx ''a'')),
                PIf (PSlot 1) (PAssign 0 (PDot (PSlot 1) ''length''))]"
  have start: "list_all (statement_ok 0 (id' ?st)) (body ?st)"
    by simp
  obtain e left st' where
    lowered: "recurse (MemberExpression (Identifier ''a'') (Identifier ''length'') False) ?st
                = Inr ((e, left), st')" and
    left: "left = JSlot 1" and
    body: "body st' = [JIf JCtx (JAssign 1 (JMember JCtx (JName ''a'') False)),
                       JIf (JSlot 1) (JAssign 0 (JMember (JSlot 1) (JName ''length'') False))]"
    by (simp add: variableDeclaration_def push_def)
  have parsed: "read_body (body st') = Inr ?unit"
    by (simp add: body token_defs)
  note all = member_falsy_object [OF start lowered parsed, of "''a''" "''length''" "VStr []"
      plain_host]
  from all obtain pl pr pre where
    pl: "read left = Inr pl" and unit: "?unit = pre @ [PIf pl (PAssign (id' ?st) pr)]" and
    falsy: "\<And>H ctx env1 calls1 v calls2.
              exec_body H ctx pre (\<lambda>_. VUndefined) [] = Inr ((Normal, env1), calls1) \<Longrightarrow>
              eval H ctx env1 pl calls1 = Inr (v, calls2) \<Longrightarrow> \<not> truthy v \<Longrightarrow>
              exec_body H ctx ?unit (\<lambda>_. VUndefined) [] = Inr ((Normal, env1), calls2)"
    by blast
  from unit have pre: "pre = [PIf PCtx (PAssign 1 (PDot PCtx ''a''))]"
    by simp
  from pl left have pl': "pl = PSlot 1"
    by simp
  have 1: "exec_body plain_host ?ctx pre (\<lambda>_. VUndefined) [] =
             Inr ((Normal, (\<lambda>_. VUndefined)(1 := VStr [])), [])"
    by (simp add: pre property_def)
  have 2: "eval plain_host ?ctx ((\<lambda>_. VUndefined)(1 := VStr [])) pl [] = Inr (VStr [], [])"
    by (simp add: pl')
  have 3: "\<not> truthy (VStr [])"
    by simp
  have names: "name_token ''a'' \<and> name_token ''length'' \<and> \<not> truthy (VStr [])"
    by (simp add: token_defs)
  with all have "evaluate plain_host
      (Program [MemberExpression (Identifier ''a'') (Identifier ''length'') False]) ?ctx =
      Inr (Inr (VUndefined, []))"
    by blast
  moreover have "property plain_host (VStr []) ''length'' = VNum 0"
    by (simp add: property_def plain_host_def)
  ultimately show ?thesis
    using falsy [OF 1 2 3] by simp
qed

section \<open>Calls\<close>

text \<open>
  The text of \<^verbatim>\<open>f()('x')\<close>: the text of the callee, \<^verbatim>\<open>v0&&v0.call(ctx)\<close>, is
  written once into the guard call and twice into the call, where the host reads
  \<^verbatim>\<open>.call(ctx,'x')\<close> on the last operand.
\<close>

lemma call_of_call_text:
  "(case recurse (Program [CallExpression (CallExpression (Identifier ''f'') [])
                             [Literal (LStr ''x'')]])
           \<lparr>id' = 0, vars = [], body = []\<rparr> of
      Inl err \<Rightarrow> []
    | Inr (r, st) \<Rightarrow> fnBody st) =
   ''return function(ctx){var v0;if(ctx){v0=(ctx).f;}ensureSafeFn(v0);'' @
   ''ensureSafeFn(v0&&v0.call(ctx));'' @
   ''return v0&&v0.call(ctx)&&v0&&v0.call(ctx).call(ctx,'' @ [quote] @ ''x'' @ [quote] @ '');}''"
  by (simp add: variableDeclaration_def push_def fnBody_def render_joined_def show_nat.simps
        decimal_digit_def)

text \<open>
  C3. A call whose callee is the \<^verbatim>\<open>Function\<close> constructor is to throw the
  forbidden-call-target fault and not to be made. Where the callee is read into a slot it
  is so: with \<^verbatim>\<open>F\<close> the constructor, \<^verbatim>\<open>F('x')\<close> throws and no call is made. But the
  \<open>CallExpression\<close> case writes the text of the callee into the guard call and again into
  the call, and the text of a callee that is itself a call is evaluated each time. In
  \<^verbatim>\<open>f()('x')\<close>, with an \<^verbatim>\<open>f\<close> that returns another function first and the
  constructor afterwards, \<^verbatim>\<open>f\<close> is called three times: the guard sees the other
  function and passes, the test of \<^verbatim>\<open>&&\<close> and the call see the constructor, and the
  constructor is called with \<^verbatim>\<open>'x'\<close>; the unit returns the function it built.
\<close>

theorem ensureSafeFn_guard_bypassed:
  "evaluate plain_host
     (Program [CallExpression (Identifier ''F'') [Literal (LStr ''x'')]])
     (VObj [(''F'', VFun FunctionConstructor)]) =
   Inr (Inl (ForbiddenCallTarget, []))
   \<and> evaluate stateful_host
     (Program [CallExpression (CallExpression (Identifier ''f'') []) [Literal (LStr ''x'')]])
     (VObj [(''f'', VFun (HostFunction 0))]) =
   Inr (Inr (VFun (HostFunction 2),
     [Call (HostFunction 0) (VObj [(''f'', VFun (HostFunction 0))]) [],
      Call (HostFunction 0) (VObj [(''f'', VFun (HostFunction 0))]) [],
      Call (HostFunction 0) (VObj [(''f'', VFun (HostFunction 0))]) [],
      Call FunctionConstructor (VObj [(''f'', VFun (HostFunction 0))]) [VStr ''x'']]))"
  by (simp add: unit_defs host_defs token_defs literal_defs stateful_host_def)




section \<open>Short circuit\<close>



text \<open>
  The text of \<^verbatim>\<open>a && f()\<close>: the read of \<^verbatim>\<open>f\<close> and the guard call stand before the
  \<^verbatim>\<open>if\<close> that holds the call.
\<close>

lemma logical_and_text:
  "(case recurse (Program [LogicalExpression ''&&'' (Identifier ''a'')
                             (CallExpression (Identifier ''f'') [])])
           \<lparr>id' = 0, vars = [], body = []\<rparr> of
      Inl err \<Rightarrow> []
    | Inr (r, st) \<Rightarrow> fnBody st) =
   ''return function(ctx){var v0,v1,v2;'' @
   ''if(ctx){v1=(ctx).a;}v0=v1;if(ctx){v2=(ctx).f;}ensureSafeFn(v2);'' @
   ''if(v0){v0=v2&&v2.call(ctx);}return v0;}''"
  by (simp add: variableDeclaration_def push_def fnBody_def render_joined_def show_nat.simps
        decimal_digit_def)

text \<open>
  C1. With \<^verbatim>\<open>&&\<close> and a falsy left operand, nothing of the right operand is to run.
  The \<open>LogicalExpression\<close> case wraps only the text that \<^verbatim>\<open>recurse(ast.right)\<close> returns
  in \<^verbatim>\<open>if(variable){...}\<close>; the statements that this \<^verbatim>\<open>recurse\<close> pushes are in
  \<open>body\<close> before the \<^verbatim>\<open>if\<close>. So with \<^verbatim>\<open>a\<close> false, \<^verbatim>\<open>a && f().b\<close> calls \<^verbatim>\<open>f\<close>
  (the call is in the statement of the member access), and \<^verbatim>\<open>a && F()\<close> throws when
  \<^verbatim>\<open>F\<close> is the \<^verbatim>\<open>Function\<close> constructor.
\<close>

theorem logical_and_runs_right_operand:
  "evaluate plain_host
     (Program [LogicalExpression ''&&'' (Identifier ''a'')
                 (MemberExpression (CallExpression (Identifier ''f'') []) (Identifier ''b'') False)])
     (VObj [(''a'', VBool False), (''f'', VFun (HostFunction 0))]) =
   Inr (Inr (VBool False,
     [Call (HostFunction 0) (VObj [(''a'', VBool False), (''f'', VFun (HostFunction 0))]) []]))
   \<and> evaluate plain_host
     (Program [LogicalExpression ''&&'' (Identifier ''a'') (CallExpression (Identifier ''F'') [])])
     (VObj [(''a'', VBool False), (''F'', VFun FunctionConstructor)]) =
   Inr (Inl (ForbiddenCallTarget, []))"
  by (simp add: unit_defs host_defs token_defs)

text \<open>
  C2. Of a \<open>ConditionalExpression\<close>, only the selected branch is to run. Here too the
  \<^verbatim>\<open>if\<close> of each branch holds only the text that \<^verbatim>\<open>recurse\<close> returns for it. So with
  \<^verbatim>\<open>t\<close> true, \<^verbatim>\<open>t ? 1 : f().b\<close> returns \<^verbatim>\<open>1\<close> and has called \<^verbatim>\<open>f\<close>; and with
  \<^verbatim>\<open>t\<close> false, \<^verbatim>\<open>t ? F() : 1\<close> throws when \<^verbatim>\<open>F\<close> is the \<^verbatim>\<open>Function\<close>
  constructor.
\<close>

theorem conditional_runs_unselected_branch:
  "evaluate plain_host
     (Program [ConditionalExpression (Identifier ''t'') (Literal (LNum 1))
                 (MemberExpression (CallExpression (Identifier ''f'') []) (Identifier ''b'') False)])
     (VObj [(''t'', VBool True), (''f'', VFun (HostFunction 0))]) =
   Inr (Inr (VNum 1,
     [Call (HostFunction 0) (VObj [(''t'', VBool True), (''f'', VFun (HostFunction 0))]) []]))
   \<and> evaluate plain_host
     (Program [ConditionalExpression (Identifier ''t'') (CallExpression (Identifier ''F'') [])
                 (Literal (LNum 1))])
     (VObj [(''t'', VBool False), (''F'', VFun FunctionConstructor)]) =
   Inr (Inl (ForbiddenCallTarget, []))"
  by (simp add: unit_defs host_defs literal_defs token_defs)

section \<open>Nodes of no recognised kind\<close>

lemma recurse_arguments_error:
  assumes "\<And>x st err. x \<in> set xs \<Longrightarrow> recurse x st = Inl err \<Longrightarrow> err = TypeError_undefined_node"
    and "recurse_arguments (map recurse xs) st = Inl err"
  shows "err = TypeError_undefined_node"
  using assms
proof (induction xs arbitrary: st)
  case Nil
  then show ?case by simp
next
  case (Cons x xs)
  note prems = Cons.prems
  have rest: "err = TypeError_undefined_node"
    if rest_fails: "recurse_arguments (map recurse xs) st1 = Inl err" for st1
  proof (rule Cons.IH [OF _ rest_fails])
    show "err = TypeError_undefined_node"
      if "x \<in> set xs" "recurse x st = Inl err" for x st err
      using prems(1) [of x st err] that by simp
  qed
  from prems(2) have "recurse x st = Inl err
      \<or> (\<exists>r st1. recurse x st = Inr (r, st1) \<and> recurse_arguments (map recurse xs) st1 = Inl err)"
    by (auto split: sum.splits)
  then show ?case
    using prems(1) [of x st err] rest by auto
qed

lemma recurse_elements_error:
  assumes "\<And>x y st err. x \<in> set xs \<Longrightarrow> y \<in> set_option x \<Longrightarrow> recurse y st = Inl err
             \<Longrightarrow> err = TypeError_undefined_node"
    and "recurse_elements (map (map_option recurse) xs) st = Inl err"
  shows "err = TypeError_undefined_node"
  using assms
proof (induction xs arbitrary: st)
  case Nil
  then show ?case by simp
next
  case (Cons x xs)
  note prems = Cons.prems
  have rest: "err = TypeError_undefined_node"
    if rest_fails: "recurse_elements (map (map_option recurse) xs) st1 = Inl err" for st1
  proof (rule Cons.IH [OF _ rest_fails])
    show "err = TypeError_undefined_node"
      if "x \<in> set xs" "y \<in> set_option x" "recurse y st = Inl err" for x y st err
      using prems(1) [of x y st err] that by simp
  qed
  show ?case
  proof (cases x)
    case None
    with prems(2) have "recurse_elements (map (map_option recurse) xs) st = Inl err"
      by (auto split: sum.splits)
    then show ?thesis by (rule rest)
  next
    case (Some y)
    with prems(2) have "recurse y st = Inl err
      \<or> (\<exists>r st1. recurse y st = Inr (r, st1) \<and>
            recurse_elements (map (map_option recurse) xs) st1 = Inl err)"
      by (auto split: sum.splits)
    then show ?thesis
      using prems(1) [of x y st err] Some rest by auto
  qed
qed

lemma recurse_key_error:
  assumes "(case key of Identifier name \<Rightarrow> Inr ((JName name, JCtx), st) | _ \<Rightarrow> recurse key st)
             = Inl err"
  shows "recurse key st = Inl err"
  using assms by (cases key) simp_all

lemma recurse_properties_error:
  assumes "\<And>k v st err. (k, v) \<in> set xs \<Longrightarrow> recurse k st = Inl err \<Longrightarrow> err = TypeError_undefined_node"
    and "\<And>k v st err. (k, v) \<in> set xs \<Longrightarrow> recurse v st = Inl err \<Longrightarrow> err = TypeError_undefined_node"
    and "recurse_properties (zip xs (map (map_prod recurse recurse) xs)) st = Inl err"
  shows "err = TypeError_undefined_node"
  using assms
proof (induction xs arbitrary: st)
  case Nil
  then show ?case by simp
next
  case (Cons x xs)
  note prems = Cons.prems
  obtain key val where x: "x = (key, val)" by (cases x)
  have rest: "recurse_properties (zip xs (map (map_prod recurse recurse) xs)) st1 = Inl err
              \<Longrightarrow> err = TypeError_undefined_node" for st1
  proof (rule Cons.IH)
    show "err = TypeError_undefined_node"
      if "(k, v) \<in> set xs" "recurse k st = Inl err" for k v st err
      using prems(1) [of k v st err] that by simp
    show "err = TypeError_undefined_node"
      if "(k, v) \<in> set xs" "recurse v st = Inl err" for k v st err
      using prems(2) [of k v st err] that by simp
  qed
  from prems(3) x have
    "(case key of Identifier name \<Rightarrow> Inr ((JName name, JCtx), st) | _ \<Rightarrow> recurse key st) = Inl err
     \<or> (\<exists>st1. recurse val st1 = Inl err)
     \<or> (\<exists>st2. recurse_properties (zip xs (map (map_prod recurse recurse) xs)) st2 = Inl err)"
    by (auto split: sum.splits)
  then show ?case
    using recurse_key_error [of key st err] prems(1) [of key val st err] prems(2) [of key val _ err]
      x rest
    by auto
qed

lemma recurse_body_error:
  assumes "\<And>x st err. x \<in> set xs \<Longrightarrow> recurse x st = Inl err \<Longrightarrow> err = TypeError_undefined_node"
    and "recurse_body (map recurse xs) st = Inl err"
  shows "err = TypeError_undefined_node"
  using assms
proof (induction xs arbitrary: st)
  case Nil
  then show ?case by simp
next
  case (Cons x xs)
  note prems = Cons.prems
  have rest: "err = TypeError_undefined_node"
    if rest_fails: "recurse_body (map recurse xs) st1 = Inl err" for st1
  proof (rule Cons.IH [OF _ rest_fails])
    show "err = TypeError_undefined_node"
      if "x \<in> set xs" "recurse x st = Inl err" for x st err
      using prems(1) [of x st err] that by simp
  qed
  from prems(2) have "recurse x st = Inl err \<or> (\<exists>st1. recurse_body (map recurse xs) st1 = Inl err)"
    by (cases xs) (auto split: sum.splits)
  then show ?case
    using prems(1) [of x st err] rest by auto
qed

lemma recurse_error:
  "recurse a st = Inl err \<Longrightarrow> err = TypeError_undefined_node"
proof (induction a arbitrary: st err)
  case (Program stmts)
  from Program.prems have fails: "recurse_body (map recurse stmts) st = Inl err"
    by (auto split: sum.splits)
  show ?case
    by (rule recurse_body_error [OF _ fails]) (rule Program.IH)
next
  case (CallExpression callee arguments)
  from CallExpression.prems consider "recurse callee st = Inl err"
    | st1 where "recurse_arguments (map recurse arguments) st1 = Inl err"
    by (auto split: sum.splits)
  then show ?case
  proof cases
    case 1
    then show ?thesis by (rule CallExpression.IH(1))
  next
    case 2
    show ?thesis
      by (rule recurse_arguments_error [OF _ 2]) (rule CallExpression.IH(2))
  qed
next
  case (ArrayExpression elements)
  from ArrayExpression.prems have
    fails: "recurse_elements (map (map_option recurse) elements) st = Inl err"
    by (auto split: sum.splits)
  show ?case
    by (rule recurse_elements_error [OF _ fails]) (rule ArrayExpression.IH)
next
  case (ObjectExpression properties)
  have fails:
    "recurse_properties (zip properties (map (map_prod recurse recurse) properties)) st = Inl err"
    using ObjectExpression.prems by (auto split: sum.splits)
  show ?case
  proof (rule recurse_properties_error [OF _ _ fails])
    show "err = TypeError_undefined_node"
      if "(k, v) \<in> set properties" "recurse k st = Inl err" for k v st err
      using ObjectExpression.IH(1) [of "(k, v)" k st err] that by simp
    show "err = TypeError_undefined_node"
      if "(k, v) \<in> set properties" "recurse v st = Inl err" for k v st err
      using ObjectExpression.IH(2) [of "(k, v)" v st err] that by simp
  qed
qed (auto simp: variableDeclaration_def split: sum.splits if_splits)

text \<open>
  The walk fails exactly on the trees in which it comes to a \<open>Program\<close> with no statement:
  first for the four loops, then for \<^verbatim>\<open>recurse\<close>.
\<close>

lemma isl_Inl: "isl m = b \<Longrightarrow> m = Inl e \<Longrightarrow> b"
  by simp

lemma isl_Inr: "isl m = b \<Longrightarrow> m = Inr r \<Longrightarrow> \<not> b"
  by auto

lemma recurse_arguments_aborts:
  assumes "\<And>x st. x \<in> set xs \<Longrightarrow> isl (recurse x st) = visits_empty_Program x"
  shows "isl (recurse_arguments (map recurse xs) st) =
         list_ex (\<lambda>b. b) (map visits_empty_Program xs)"
  using assms
proof (induction xs arbitrary: st)
  case Nil
  then show ?case by simp
next
  case (Cons x xs)
  have rest: "isl (recurse_arguments (map recurse xs) st1) =
              list_ex (\<lambda>b. b) (map visits_empty_Program xs)" for st1
    by (rule Cons.IH) (simp add: Cons.prems)
  have head: "isl (recurse x st) = visits_empty_Program x" for st
    by (simp add: Cons.prems)
  show ?case
    by (auto split: sum.splits prod.splits
          dest: isl_Inl [OF head] isl_Inr [OF head] isl_Inl [OF rest] isl_Inr [OF rest])
qed

lemma recurse_elements_aborts:
  assumes "\<And>x y st. x \<in> set xs \<Longrightarrow> y \<in> set_option x \<Longrightarrow>
             isl (recurse y st) = visits_empty_Program y"
  shows "isl (recurse_elements (map (map_option recurse) xs) st) =
         list_ex (\<lambda>e. case e of None \<Rightarrow> False | Some b \<Rightarrow> b)
                 (map (map_option visits_empty_Program) xs)"
  using assms
proof (induction xs arbitrary: st)
  case Nil
  then show ?case by simp
next
  case (Cons x xs)
  note prems = Cons.prems
  have rest: "isl (recurse_elements (map (map_option recurse) xs) st1) =
         list_ex (\<lambda>e. case e of None \<Rightarrow> False | Some b \<Rightarrow> b)
                 (map (map_option visits_empty_Program) xs)" for st1
  proof (rule Cons.IH)
    show "isl (recurse y st) = visits_empty_Program y"
      if "x \<in> set xs" "y \<in> set_option x" for x y st
      using prems [of x y st] that by simp
  qed
  show ?case
  proof (cases x)
    case None
    then show ?thesis
      by (auto split: sum.splits prod.splits dest: isl_Inl [OF rest] isl_Inr [OF rest])
  next
    case (Some y)
    have head: "isl (recurse y st) = visits_empty_Program y" for st
      using prems [of x y st] Some by simp
    show ?thesis
      using Some
      by (auto split: sum.splits prod.splits
            dest: isl_Inl [OF head] isl_Inr [OF head] isl_Inl [OF rest] isl_Inr [OF rest])
  qed
qed

lemma recurse_body_aborts:
  assumes "\<And>x st. x \<in> set xs \<Longrightarrow> isl (recurse x st) = visits_empty_Program x"
  shows "isl (recurse_body (map recurse xs) st) =
         (xs = [] \<or> list_ex (\<lambda>b. b) (map visits_empty_Program xs))"
  using assms
proof (induction xs arbitrary: st)
  case Nil
  then show ?case by simp
next
  case (Cons x xs)
  have rest: "isl (recurse_body (map recurse xs) st1) =
         (xs = [] \<or> list_ex (\<lambda>b. b) (map visits_empty_Program xs))" for st1
    by (rule Cons.IH) (simp add: Cons.prems)
  have head: "isl (recurse x st) = visits_empty_Program x" for st
    by (simp add: Cons.prems)
  show ?case
  proof (cases xs)
    case Nil
    then show ?thesis
      by (auto split: sum.splits prod.splits dest: isl_Inl [OF head] isl_Inr [OF head])
  next
    case (Cons y ys)
    then show ?thesis
      using rest
      by (auto split: sum.splits prod.splits dest: isl_Inl [OF head] isl_Inr [OF head])
  qed
qed

lemma recurse_properties_aborts:
  assumes "\<And>k v st. (k, v) \<in> set xs \<Longrightarrow> isl (recurse k st) = visits_empty_Program k"
    and "\<And>k v st. (k, v) \<in> set xs \<Longrightarrow> isl (recurse v st) = visits_empty_Program v"
  shows "isl (recurse_properties (zip xs (map (map_prod recurse recurse) xs)) st) =
         list_ex (\<lambda>((key, _), k, v). (case key of Identifier name \<Rightarrow> False | _ \<Rightarrow> k) \<or> v)
           (zip xs (map (map_prod visits_empty_Program visits_empty_Program) xs))"
  using assms
proof (induction xs arbitrary: st)
  case Nil
  then show ?case by simp
next
  case (Cons x xs)
  note prems = Cons.prems
  obtain key val where x: "x = (key, val)" by (cases x)
  have rest: "isl (recurse_properties (zip xs (map (map_prod recurse recurse) xs)) st1) =
         list_ex (\<lambda>((key, _), k, v). (case key of Identifier name \<Rightarrow> False | _ \<Rightarrow> k) \<or> v)
           (zip xs (map (map_prod visits_empty_Program visits_empty_Program) xs))" for st1
  proof (rule Cons.IH)
    show "isl (recurse k st) = visits_empty_Program k" if "(k, v) \<in> set xs" for k v st
      using prems(1) [of k v st] that by simp
    show "isl (recurse v st) = visits_empty_Program v" if "(k, v) \<in> set xs" for k v st
      using prems(2) [of k v st] that by simp
  qed
  have key: "isl (case key of Identifier name \<Rightarrow> Inr ((JName name, JCtx), st) | _ \<Rightarrow> recurse key st)
             = (case key of Identifier name \<Rightarrow> False | _ \<Rightarrow> visits_empty_Program key)" for st
    using prems(1) [of key val st] x by (cases key) simp_all
  have val: "isl (recurse val st1) = visits_empty_Program val" for st1
    using prems(2) [of key val st1] x by simp
  show ?case
    unfolding x
    by (auto split: sum.splits prod.splits
          dest: isl_Inl [OF key] isl_Inr [OF key] isl_Inl [OF val] isl_Inr [OF val]
                isl_Inl [OF rest] isl_Inr [OF rest])
qed

lemma recurse_aborts:
  "isl (recurse a st) = visits_empty_Program a"
proof (induction a arbitrary: st)
  case (Program stmts)
  have "isl (recurse_body (map recurse stmts) st) =
         (stmts = [] \<or> list_ex (\<lambda>b. b) (map visits_empty_Program stmts))"
    by (rule recurse_body_aborts) (rule Program.IH)
  then show ?case
    by (cases "recurse_body (map recurse stmts) st") simp_all
next
  case (ConditionalExpression test consequent alternate)
  note IH = ConditionalExpression.IH
  show ?case
    by (auto simp: variableDeclaration_def split: sum.splits prod.splits
          dest: isl_Inl [OF IH(1)] isl_Inr [OF IH(1)] isl_Inl [OF IH(2)] isl_Inr [OF IH(2)]
                isl_Inl [OF IH(3)] isl_Inr [OF IH(3)])
next
  case (LogicalExpression operator left right)
  note IH = LogicalExpression.IH
  show ?case
    by (auto simp: variableDeclaration_def split: sum.splits prod.splits
          dest: isl_Inl [OF IH(1)] isl_Inr [OF IH(1)] isl_Inl [OF IH(2)] isl_Inr [OF IH(2)])
next
  case (BinaryExpression operator left right)
  note IH = BinaryExpression.IH
  show ?case
    by (auto split: sum.splits prod.splits
          dest: isl_Inl [OF IH(1)] isl_Inr [OF IH(1)] isl_Inl [OF IH(2)] isl_Inr [OF IH(2)])
next
  case (UnaryExpression operator argument)
  note IH = UnaryExpression.IH
  show ?case
    by (auto split: sum.splits prod.splits dest: isl_Inl [OF IH] isl_Inr [OF IH])
next
  case (CallExpression callee arguments)
  note IH = CallExpression.IH
  have args: "isl (recurse_arguments (map recurse arguments) st1) =
         list_ex (\<lambda>b. b) (map visits_empty_Program arguments)" for st1
    by (rule recurse_arguments_aborts) (rule IH(2))
  show ?case
    by (auto split: sum.splits prod.splits
          dest: isl_Inl [OF IH(1)] isl_Inr [OF IH(1)] isl_Inl [OF args] isl_Inr [OF args])
next
  case (MemberExpression obj prp computed)
  note IH = MemberExpression.IH
  show ?case
    by (auto simp: variableDeclaration_def split: sum.splits prod.splits if_splits
          dest: isl_Inl [OF IH(1)] isl_Inr [OF IH(1)] isl_Inl [OF IH(2)] isl_Inr [OF IH(2)])
next
  case (ArrayExpression elements)
  have "isl (recurse_elements (map (map_option recurse) elements) st) =
         list_ex (\<lambda>e. case e of None \<Rightarrow> False | Some b \<Rightarrow> b)
                 (map (map_option visits_empty_Program) elements)"
    by (rule recurse_elements_aborts) (rule ArrayExpression.IH)
  then show ?case
    by (cases "recurse_elements (map (map_option recurse) elements) st") auto
next
  case (ObjectExpression properties)
  have "isl (recurse_properties (zip properties (map (map_prod recurse recurse) properties)) st) =
         list_ex (\<lambda>((key, _), k, v). (case key of Identifier name \<Rightarrow> False | _ \<Rightarrow> k) \<or> v)
           (zip properties (map (map_prod visits_empty_Program visits_empty_Program) properties))"
  proof (rule recurse_properties_aborts)
    show "isl (recurse k st) = visits_empty_Program k" if "(k, v) \<in> set properties" for k v st
      using ObjectExpression.IH(1) [of "(k, v)" k st] that by simp
    show "isl (recurse v st) = visits_empty_Program v" if "(k, v) \<in> set properties" for k v st
      using ObjectExpression.IH(2) [of "(k, v)" v st] that by simp
  qed
  then show ?case
    by (cases "recurse_properties (zip properties (map (map_prod recurse recurse) properties)) st")
       auto
qed (simp_all add: variableDeclaration_def)

text \<open>
  C8, as stated: a tree with a node of a kind that is not recognised makes \<^verbatim>\<open>compile\<close>
  abort. The \<^verbatim>\<open>switch\<close> of \<^verbatim>\<open>recurse\<close> has no \<^verbatim>\<open>default\<close>: for such a node it
  returns \<^verbatim>\<open>undefined\<close>, and \<^verbatim>\<open>compile\<close> goes on. A \<open>Program\<close> whose one statement is
  such a node compiles to \<^verbatim>\<open>return ;\<close>.
\<close>

theorem unknown_node_counterexample:
  "compile (Program [Unknown]) = Inr [PReturn PUndefined]"
  by (simp add: unit_defs)

text \<open>
  C8, amended. A node of a kind that is not recognised is never treated as fatal:
  \<^verbatim>\<open>recurse\<close> declares no slot and pushes no statement for it and returns
  \<^verbatim>\<open>undefined\<close>, and the walk of a tree throws (the \<^verbatim>\<open>TypeError\<close> of reading
  \<^verbatim>\<open>ast.type\<close> of \<^verbatim>\<open>undefined\<close>) exactly when it comes to a \<open>Program\<close> with no
  statement, whatever nodes of other kinds the tree holds. When the walk throws, so does
  \<^verbatim>\<open>compile\<close>; when it does not, \<^verbatim>\<open>compile\<close> hands the text to \<^verbatim>\<open>new Function\<close> as for
  any tree. Where that text parses a unit is produced: the unit of a \<open>Program\<close> of such a
  node alone returns \<^verbatim>\<open>undefined\<close> for every context, and \<^verbatim>\<open>typeof\<close> of such a node is
  \<^verbatim>\<open>typeof(undefined)\<close>. Where the text left in the node's place does not parse,
  \<^verbatim>\<open>new Function\<close> throws a \<^verbatim>\<open>SyntaxError\<close>: such a node as the first of two arguments
  leaves \<^verbatim>\<open>.call(ctx,,1)\<close>.
\<close>

theorem unknown_node_lowered:
  "recurse Unknown st = Inr ((JNone, JCtx), st)
   \<and> (recurse a st = Inl err) = (err = TypeError_undefined_node \<and> visits_empty_Program a)
   \<and> (visits_empty_Program a \<longrightarrow> compile a = Inl TypeError_undefined_node)
   \<and> (\<not> visits_empty_Program a \<longrightarrow>
        (\<exists>r st'. recurse a \<lparr>id' = 0, vars = [], body = []\<rparr> = Inr (r, st') \<and>
                 compile a = new_Function st'))
   \<and> evaluate H (Program [Unknown]) ctx = Inr (Inr (VUndefined, []))
   \<and> compile (Program [UnaryExpression ''typeof'' Unknown]) =
       Inr [PReturn (PUnary ''typeof'' PUndefined)]
   \<and> compile (Program [CallExpression (Identifier ''f'') [Unknown, Literal (LNum 1)]]) =
       Inl SyntaxError"
proof -
  have walk: "(recurse a st = Inl err) = (err = TypeError_undefined_node \<and> visits_empty_Program a)"
    for st err
    using recurse_aborts [of a st]
    by (cases "recurse a st") (auto dest: recurse_error)
  have aborts: "compile a = Inl TypeError_undefined_node" if "visits_empty_Program a"
    using that walk [of "\<lparr>id' = 0, vars = [], body = []\<rparr>" TypeError_undefined_node]
    by (simp add: compile_def)
  have goes_on: "\<exists>r st'. recurse a \<lparr>id' = 0, vars = [], body = []\<rparr> = Inr (r, st') \<and>
                   compile a = new_Function st'"
    if "\<not> visits_empty_Program a"
    using that recurse_aborts [of a "\<lparr>id' = 0, vars = [], body = []\<rparr>"]
    by (cases "recurse a \<lparr>id' = 0, vars = [], body = []\<rparr>") (auto simp: compile_def)
  have unit: "evaluate H (Program [Unknown]) ctx = Inr (Inr (VUndefined, []))"
    by (simp add: unit_defs)
  have typeof: "compile (Program [UnaryExpression ''typeof'' Unknown]) =
       Inr [PReturn (PUnary ''typeof'' PUndefined)]"
    by (simp add: unit_defs token_defs)
  have rejected: "compile (Program [CallExpression (Identifier ''f'') [Unknown, Literal (LNum 1)]]) =
       Inl SyntaxError"
    by (simp add: unit_defs token_defs literal_defs)
  show ?thesis
    using walk aborts goes_on unit typeof rejected by simp
qed

theorem unknown_node_lowered_witness:
  "compile (Program [BinaryExpression ''+'' Unknown (Literal (LNum 1))]) =
     Inr [PReturn (PBinary ''+'' PUndefined (PLiteral (VNum 1)))]
   \<and> recurse (Program [Unknown, Program []]) \<lparr>id' = 0, vars = [], body = []\<rparr> =
     Inl TypeError_undefined_node
   \<and> compile (Program [Unknown, Program []]) = Inl TypeError_undefined_node"
proof -
  let ?st = "\<lparr>id' = 0, vars = [], body = []\<rparr>"
  let ?a = "Program [BinaryExpression ''+'' Unknown (Literal (LNum 1))]"
  let ?b = "Program [Unknown, Program []]"
  have "\<not> visits_empty_Program ?a"
    by simp
  with unknown_node_lowered [of ?st ?a TypeError_undefined_node plain_host VNull]
  obtain r st' where "recurse ?a ?st = Inr (r, st')" and "compile ?a = new_Function st'"
    by blast
  then have 1: "compile ?a = Inr [PReturn (PBinary ''+'' PUndefined (PLiteral (VNum 1)))]"
    by (auto simp: unit_defs binary_operators_def literal_defs)
  have "visits_empty_Program ?b"
    by simp
  with unknown_node_lowered [of ?st ?b TypeError_undefined_node plain_host VNull]
  have 2: "recurse ?b ?st = Inl TypeError_undefined_node"
    and 3: "compile ?b = Inl TypeError_undefined_node"
    by blast+
  from 1 2 3 show ?thesis by simp
qed

text \<open>
  A unit returns a value only through the \<^verbatim>\<open>return\<close> of the \<open>Program\<close> case: the unit
  of a tree that is not a \<open>Program\<close> returns \<^verbatim>\<open>undefined\<close>.
\<close>

lemma root_without_program:
  "name_token x \<Longrightarrow> evaluate H (Identifier x) ctx = Inr (Inr (VUndefined, []))"
  by (simp add: unit_defs)

end
